theory Spec2Isabelle
  imports Complex_Main "HOL-Library.Log_Nat"
begin

section \<open>The team-creation page (CreateTeam)\<close>

subsection \<open>JavaScript numbers\<close>

text \<open>
  A JavaScript Number is an IEEE-754 binary64 value. A finite one is carried as the
  rational it denotes. The sign of zero is not kept: the page only adds, subtracts and
  compares, and none of these tells the two zeros apart.
\<close>

datatype number = Num rat | PosInf | NegInf | NaN

subsection \<open>Page state\<close>

text \<open>
  A player object as the page reads it: \<open>pid\<close> is the field \<open>id\<close>, \<open>pname\<close> is
  \<open>name\<close>, \<open>pteam\<close> is \<open>team\<close>.
\<close>

record player =
  pid :: string
  pname :: string
  role :: string
  pteam :: string
  base_price :: number

text \<open>The \<open>useState\<close> cells of the component; \<open>null\<close> is \<open>None\<close>.\<close>

record page =
  players :: "player list"
  selectedPlayers :: "player list"
  captain :: "player option"
  viceCaptain :: "player option"
  teamName :: string
  loading :: bool
  filter_tab :: string

definition initial_page :: page where
  "initial_page =
     \<lparr>players = [], selectedPlayers = [], captain = None, viceCaptain = None,
      teamName = ''My Warriors'', loading = True, filter_tab = ''all''\<rparr>"

text \<open>\<open>selectedPlayers.find(p => p.id === player.id)\<close>, read as a truth value.\<close>

definition isSelected :: "player \<Rightarrow> page \<Rightarrow> bool" where
  "isSelected player s = (find (\<lambda>p. pid p = pid player) (selectedPlayers s) \<noteq> None)"

text \<open>\<open>captain?.id === player.id\<close>: false when the designation is \<open>null\<close>.\<close>

definition holds_id :: "player option \<Rightarrow> player \<Rightarrow> bool" where
  "holds_id d player = (case d of None \<Rightarrow> False | Some c \<Rightarrow> pid c = pid player)"

definition togglePlayer :: "player \<Rightarrow> page \<Rightarrow> page" where
  "togglePlayer player s =
     (if isSelected player s then
        s\<lparr>selectedPlayers := filter (\<lambda>p. pid p \<noteq> pid player) (selectedPlayers s),
          captain := (if holds_id (captain s) player then None else captain s),
          viceCaptain := (if holds_id (viceCaptain s) player then None else viceCaptain s)\<rparr>
      else if length (selectedPlayers s) < 11 then
        s\<lparr>selectedPlayers := selectedPlayers s @ [player]\<rparr>
      else s)"

definition setCaptain :: "player \<Rightarrow> page \<Rightarrow> page" where
  "setCaptain player s = s\<lparr>captain := Some player\<rparr>"

definition setViceCaptain :: "player \<Rightarrow> page \<Rightarrow> page" where
  "setViceCaptain player s = s\<lparr>viceCaptain := Some player\<rparr>"

text \<open>
  What a user can do to the selection on the page. The C and VC buttons of a row are
  rendered only while that row's player is selected; the checkbox is always there.
\<close>

datatype event = Toggle player | ClickC player | ClickVC player

fun page_step :: "page \<Rightarrow> event \<Rightarrow> page" where
  "page_step s (Toggle p) = togglePlayer p s"
| "page_step s (ClickC p) = (if isSelected p s then setCaptain p s else s)"
| "page_step s (ClickVC p) = (if isSelected p s then setViceCaptain p s else s)"

definition run_events :: "page \<Rightarrow> event list \<Rightarrow> page" where
  "run_events s evs = foldl page_step s evs"

definition toggles :: "page \<Rightarrow> player list \<Rightarrow> page" where
  "toggles s ps = foldl (\<lambda>s p. togglePlayer p s) s ps"

fun event_player :: "event \<Rightarrow> player" where
  "event_player (Toggle p) = p"
| "event_player (ClickC p) = p"
| "event_player (ClickVC p) = p"

text \<open>A designation is \<open>null\<close> or names (by id) one of the selected players.\<close>

definition designated_in :: "player option \<Rightarrow> page \<Rightarrow> bool" where
  "designated_in d s = (case d of None \<Rightarrow> True | Some c \<Rightarrow> pid c \<in> set (map pid (selectedPlayers s)))"

text \<open>A designation is \<open>null\<close> or is itself one of the selected player objects.\<close>

definition member_or_null :: "player option \<Rightarrow> page \<Rightarrow> bool" where
  "member_or_null d s = (case d of None \<Rightarrow> True | Some c \<Rightarrow> c \<in> set (selectedPlayers s))"

subsection \<open>Arithmetic of JavaScript numbers\<close>

text \<open>
  Round to nearest, ties to even, at 53 significant bits. \<open>floor_log2 q\<close> is the
  exponent of the leading bit of a positive \<open>q\<close>; below \<open>2 powi (-1022)\<close> the spacing
  stays at \<open>2 powi (-1074)\<close> (subnormal numbers). A result of magnitude \<open>2 ^ 1024\<close> or
  more overflows to an infinity.
\<close>

definition round_half_even :: "rat \<Rightarrow> int" where
  "round_half_even q =
     (let f = \<lfloor>q\<rfloor>; r = q - of_int f
      in if r < 1 / 2 then f else if 1 / 2 < r then f + 1 else if even f then f else f + 1)"

definition floor_log2 :: "rat \<Rightarrow> int" where
  "floor_log2 q = (if 1 \<le> q then bitlen \<lfloor>q\<rfloor> - 1 else - bitlen (\<lceil>1 / q\<rceil> - 1))"

definition ulp_exp :: "rat \<Rightarrow> int" where
  "ulp_exp q = max (floor_log2 \<bar>q\<bar> - 52) (- 1074)"

definition round64 :: "rat \<Rightarrow> rat" where
  "round64 q = of_int (round_half_even (q / 2 powi ulp_exp q)) * 2 powi ulp_exp q"

definition fl :: "rat \<Rightarrow> number" where
  "fl q =
     (let r = round64 q
      in if 2 ^ 1024 \<le> r then PosInf else if r \<le> - (2 ^ 1024) then NegInf else Num r)"

fun js_add :: "number \<Rightarrow> number \<Rightarrow> number" where
  "js_add NaN y = NaN"
| "js_add x NaN = NaN"
| "js_add PosInf NegInf = NaN"
| "js_add NegInf PosInf = NaN"
| "js_add PosInf y = PosInf"
| "js_add x PosInf = PosInf"
| "js_add NegInf y = NegInf"
| "js_add x NegInf = NegInf"
| "js_add (Num a) (Num b) = fl (a + b)"

fun js_sub :: "number \<Rightarrow> number \<Rightarrow> number" where
  "js_sub NaN y = NaN"
| "js_sub x NaN = NaN"
| "js_sub PosInf PosInf = NaN"
| "js_sub NegInf NegInf = NaN"
| "js_sub PosInf y = PosInf"
| "js_sub x PosInf = NegInf"
| "js_sub NegInf y = NegInf"
| "js_sub x NegInf = PosInf"
| "js_sub (Num a) (Num b) = fl (a - b)"

text \<open>\<open>x < y\<close> on numbers: false as soon as one side is \<open>NaN\<close>.\<close>

fun js_lt :: "number \<Rightarrow> number \<Rightarrow> bool" where
  "js_lt NaN y = False"
| "js_lt x NaN = False"
| "js_lt x NegInf = False"
| "js_lt NegInf y = True"
| "js_lt PosInf y = False"
| "js_lt x PosInf = True"
| "js_lt (Num a) (Num b) = (a < b)"

subsection \<open>Credits and the submit button\<close>

text \<open>\<open>selectedPlayers.reduce((sum, p) => sum + p.base_price, 0)\<close>\<close>

definition totalCredits :: "page \<Rightarrow> number" where
  "totalCredits s = foldl (\<lambda>sum p. js_add sum (base_price p)) (Num 0) (selectedPlayers s)"

definition creditsLeft :: "page \<Rightarrow> number" where
  "creditsLeft s = js_sub (Num 100) (totalCredits s)"

text \<open>The \<open>disabled\<close> attribute of the button that calls \<open>handleSubmit\<close>.\<close>

definition submit_disabled :: "page \<Rightarrow> bool" where
  "submit_disabled s \<longleftrightarrow>
     length (selectedPlayers s) \<noteq> 11 \<or> captain s = None \<or> viceCaptain s = None
     \<or> js_lt (creditsLeft s) (Num 0)"

text \<open>
  The sum of the base prices in exact arithmetic, to set against \<open>totalCredits\<close>. A
  finite number counts with the rational it denotes.
\<close>

fun rat_of :: "number \<Rightarrow> rat" where
  "rat_of (Num q) = q"
| "rat_of x = 0"

definition exact_total :: "page \<Rightarrow> rat" where
  "exact_total s = sum_list (map (\<lambda>p. rat_of (base_price p)) (selectedPlayers s))"

text \<open>
  The number a decimal literal of a response body denotes: the nearest binary64 value.
\<close>

definition parsed :: "rat \<Rightarrow> number" where
  "parsed q = fl q"

text \<open>The finite binary64 values are all multiples of the least positive one.\<close>

definition min_subnormal :: rat where
  "min_subnormal = 2 powi (- 1074)"

definition on_grid :: "rat \<Rightarrow> bool" where
  "on_grid q \<longleftrightarrow> (\<exists>n::int. q = of_int n * min_subnormal)"

fun finite_on_grid :: "number \<Rightarrow> bool" where
  "finite_on_grid (Num q) = on_grid q"
| "finite_on_grid x = True"

text \<open>Prices in steps of half a credit.\<close>

definition half_credits :: "number \<Rightarrow> bool" where
  "half_credits x \<longleftrightarrow> (\<exists>k::nat. x = Num (of_nat k / 2))"

subsection \<open>Submitting\<close>

record payload_player =
  player_id :: string
  is_captain :: bool
  is_vice_captain :: bool

record teamPayload =
  match_id :: string
  team_name :: string
  payload_players :: "payload_player list"

text \<open>The identifier of a created team (\<open>teamResponse.data.id\<close>) is opaque to the page.\<close>

type_synonym team_id = nat

record joinBody =
  contest_id :: string
  team_id :: team_id

text \<open>The requests the page issues; \<open>PostJoin c b\<close> is \<open>POST /contests/c/join\<close> with body \<open>b\<close>.\<close>

datatype request = PostTeams teamPayload | PostJoin string joinBody

text \<open>
  A failed request is seen through \<open>error.response?.data?.detail\<close> only: \<open>None\<close> when
  there is no such field. The server is a state \<open>'s\<close> that each request may change,
  whether it succeeds or not.
\<close>

type_synonym api_error = "string option"

record 's api =
  post_teams :: "teamPayload \<Rightarrow> 's \<Rightarrow> (api_error + team_id) \<times> 's"
  post_join :: "string \<Rightarrow> joinBody \<Rightarrow> 's \<Rightarrow> (api_error + unit) \<times> 's"

record toast =
  title :: string
  description :: string
  variant :: "string option"

definition error_toast :: "string \<Rightarrow> toast" where
  "error_toast d = \<lparr>title = ''Error'', description = d, variant = Some ''destructive''\<rparr>"

definition success_toast :: toast where
  "success_toast =
     \<lparr>title = ''Success'', description = ''Team created and contest joined!'', variant = None\<rparr>"

text \<open>\<open>error.response?.data?.detail || 'Failed to create team'\<close>: the empty string is falsy.\<close>

definition detail_or_default :: "api_error \<Rightarrow> string" where
  "detail_or_default e =
     (case e of None \<Rightarrow> ''Failed to create team''
      | Some d \<Rightarrow> if d = [] then ''Failed to create team'' else d)"

definition payload_of :: "string \<Rightarrow> page \<Rightarrow> teamPayload" where
  "payload_of matchId s =
     \<lparr>match_id = matchId, team_name = teamName s,
      payload_players =
        map (\<lambda>p. \<lparr>player_id = pid p, is_captain = holds_id (captain s) p,
                   is_vice_captain = holds_id (viceCaptain s) p\<rparr>) (selectedPlayers s)\<rparr>"

text \<open>
  What one call of \<open>handleSubmit\<close> does: the toast it shows, where it navigates, the
  requests it sent in order, and the server state it leaves.
\<close>

record 's outcome =
  shown :: toast
  navigated :: "string option"
  sent :: "request list"
  server :: 's

definition handleSubmit :: "'s api \<Rightarrow> string \<Rightarrow> string \<Rightarrow> page \<Rightarrow> 's \<Rightarrow> 's outcome" where
  "handleSubmit api matchId contestId s st =
     (if length (selectedPlayers s) \<noteq> 11 then
        \<lparr>shown = error_toast ''Select exactly 11 players'', navigated = None,
         sent = [], server = st\<rparr>
      else if captain s = None \<or> viceCaptain s = None then
        \<lparr>shown = error_toast ''Select captain and vice-captain'', navigated = None,
         sent = [], server = st\<rparr>
      else
        let payload = payload_of matchId s
        in case post_teams api payload st of
             (Inl e, st1) \<Rightarrow>
               \<lparr>shown = error_toast (detail_or_default e), navigated = None,
                sent = [PostTeams payload], server = st1\<rparr>
           | (Inr new_id, st1) \<Rightarrow>
               let body = \<lparr>contest_id = contestId, team_id = new_id\<rparr>
               in case post_join api contestId body st1 of
                    (Inl e, st2) \<Rightarrow>
                      \<lparr>shown = error_toast (detail_or_default e), navigated = None,
                       sent = [PostTeams payload, PostJoin contestId body], server = st2\<rparr>
                  | (Inr u, st2) \<Rightarrow>
                      \<lparr>shown = success_toast, navigated = Some ''/my-contests'',
                       sent = [PostTeams payload, PostJoin contestId body], server = st2\<rparr>)"



text \<open>The same page with other base prices on its player objects.\<close>

definition with_prices :: "(player \<Rightarrow> number) \<Rightarrow> page \<Rightarrow> page" where
  "with_prices f s =
     s\<lparr>players := map (\<lambda>p. p\<lparr>base_price := f p\<rparr>) (players s),
       selectedPlayers := map (\<lambda>p. p\<lparr>base_price := f p\<rparr>) (selectedPlayers s),
       captain := map_option (\<lambda>p. p\<lparr>base_price := f p\<rparr>) (captain s),
       viceCaptain := map_option (\<lambda>p. p\<lparr>base_price := f p\<rparr>) (viceCaptain s)\<rparr>"

section \<open>The contest list (Contests)\<close>

text \<open>
  A contest object as the list reads it: \<open>cid\<close> is the field \<open>id\<close>, \<open>cname\<close> is
  \<open>name\<close>, \<open>of_match_id\<close> is \<open>match_id\<close>. The counts are JavaScript numbers like any
  other number of a response.
\<close>

record contest_row =
  cid :: string
  cname :: string
  of_match_id :: string
  status :: string
  entry_fee :: number
  prize_pool :: number
  max_users :: number
  joined_users :: number

text \<open>\<open>const spotsLeft = contest.max_users - contest.joined_users\<close>\<close>

definition spotsLeft :: "contest_row \<Rightarrow> number" where
  "spotsLeft contest = js_sub (max_users contest) (joined_users contest)"

section \<open>The backend\<close>

subsection \<open>Stores\<close>

text \<open>
  Modelled from the spec: the contest, team, contest-entry and wallet records of the
  data model (section 3). The backend that keeps them is not among the sources. Money
  is in exact rationals, the counts are natural numbers.
\<close>

datatype contest_status = Open | InProgress | Completed

record contest =
  contest_match :: string
  fee :: rat
  pool :: rat
  max_entrants :: nat
  joined_count :: nat
  contest_state :: contest_status

record team =
  team_ident :: team_id
  owner :: string
  team_match :: string
  members :: "string list"
  captain_ref :: string
  vice_captain_ref :: string

record entry =
  entry_user :: string
  entry_team :: team_id
  entry_contest :: string

datatype txn_type = Credit | Debit

record txn =
  txn_user :: string
  txn_type :: txn_type
  amount :: rat
  reference :: string

record backend =
  contests :: "string \<rightharpoonup> contest"
  teams :: "team list"
  entries :: "entry list"
  balance :: "string \<Rightarrow> rat"
  transactions :: "txn list"

subsection \<open>Contest Join Orchestrator\<close>

datatype join_reject =
  NoSuchContest | ContestNotOpen | ContestFull | InsufficientBalance | DuplicateEntry

text \<open>
  Modelled from the spec: the refusals of section 4.3, step (a), step (b) and the single
  entry per user and contest, in that order; not among the sources.
\<close>

definition join_refusal :: "string \<Rightarrow> string \<Rightarrow> backend \<Rightarrow> contest \<Rightarrow> join_reject option" where
  "join_refusal user contestId st c =
     (if contest_state c \<noteq> Open then Some ContestNotOpen
      else if \<not> joined_count c < max_entrants c then Some ContestFull
      else if \<not> fee c \<le> balance st user then Some InsufficientBalance
      else if list_ex (\<lambda>e. entry_user e = user \<and> entry_contest e = contestId) (entries st)
        then Some DuplicateEntry
      else None)"

text \<open>
  Modelled from the spec: \<open>joinContest(userId, contestId, team)\<close> of sections 4.3 and 6,
  not among the sources. The team it is given has passed the validator. Every refusal
  leaves the state as it was; otherwise the wallet is debited with its debit record, the
  joined count goes up by one, and the team and its entry are created (section 3: a team
  is created once, at join time), all in one step. The spec names four refusals; a
  request naming no contest is refused too.
\<close>

definition joinContest :: "string \<Rightarrow> string \<Rightarrow> team \<Rightarrow> backend \<Rightarrow> (join_reject + entry) \<times> backend" where
  "joinContest user contestId t st =
     (case contests st contestId of
        None \<Rightarrow> (Inl NoSuchContest, st)
      | Some c \<Rightarrow>
          (case join_refusal user contestId st c of
             Some r \<Rightarrow> (Inl r, st)
           | None \<Rightarrow>
               let e = \<lparr>entry_user = user, entry_team = length (teams st),
                        entry_contest = contestId\<rparr>
               in (Inr e,
                   st\<lparr>balance := (balance st)(user := balance st user - fee c),
                      transactions := transactions st @
                        [\<lparr>txn_user = user, txn_type = Debit, amount = fee c,
                          reference = contestId\<rparr>],
                      contests :=
                        (contests st)(contestId \<mapsto> c\<lparr>joined_count := Suc (joined_count c)\<rparr>),
                      teams := teams st @ [t\<lparr>team_ident := length (teams st), owner := user\<rparr>],
                      entries := entries st @ [e]\<rparr>)))"

text \<open>
  Modelled from the spec: join requests one after the other, by whom, for which contest
  and with which team, in any order (section 5: one logical operation per call, joins for a contest are
  mutually exclusive).
\<close>

definition run_joins :: "backend \<Rightarrow> (string \<times> string \<times> team) list \<Rightarrow> backend" where
  "run_joins st js = foldl (\<lambda>st (user, contestId, t). snd (joinContest user contestId t st)) st js"

text \<open>
  Modelled from the spec: no contest holds more entrants than its maximum (section 3,
  the joined count must never exceed the maximum).
\<close>

definition within_capacity :: "backend \<Rightarrow> bool" where
  "within_capacity st \<longleftrightarrow>
     (\<forall>k c. contests st k = Some c \<longrightarrow> joined_count c \<le> max_entrants c)"

text \<open>
  Modelled from the spec: what the contest list is handed for a contest record, the
  two counts written as decimal numbers (section 2: the page reads the stores, it does
  not write them); the code that answers the list is not among the sources.
\<close>

definition shows_counts :: "contest_row \<Rightarrow> contest \<Rightarrow> bool" where
  "shows_counts row c \<longleftrightarrow>
     max_users row = parsed (of_nat (max_entrants c))
     \<and> joined_users row = parsed (of_nat (joined_count c))"

subsection \<open>Scoring Engine\<close>

text \<open>
  Modelled from the spec: \<open>computePlayerPoints\<close> and \<open>computeTeamScore\<close> (section 4.2),
  whose code is not among the sources. One line of the scoring table per summand; each
  one-time bonus is added when its threshold is reached.
\<close>

record rawStats =
  runs :: nat
  fours :: nat
  sixes :: nat
  wickets :: nat
  maidens :: nat
  catches :: nat
  stumpings :: nat
  run_outs :: nat

text \<open>
  Modelled from the spec: \<open>computePlayerPoints(rawStats)\<close>, the scoring table of section
  4.2; not among the sources.
\<close>

definition computePlayerPoints :: "rawStats \<Rightarrow> int" where
  "computePlayerPoints r =
     int (runs r) + int (fours r) + 2 * int (sixes r)
     + (if 50 \<le> runs r then 8 else 0) + (if 100 \<le> runs r then 16 else 0)
     + 25 * int (wickets r) + 12 * int (maidens r)
     + (if 3 \<le> wickets r then 4 else 0) + (if 5 \<le> wickets r then 8 else 0)
     + 8 * int (catches r) + 12 * int (stumpings r) + 6 * int (run_outs r)"

text \<open>
  Modelled from the spec: the multiplier of section 4.2, 2 for the captain, 1.5 for the
  vice-captain, 1 for all others; not among the sources.
\<close>

definition multiplier :: "team \<Rightarrow> string \<Rightarrow> rat" where
  "multiplier t r =
     (if r = captain_ref t then 2 else if r = vice_captain_ref t then 3 / 2 else 1)"

fun score_players :: "team \<Rightarrow> (string \<Rightarrow> int) \<Rightarrow> string list \<Rightarrow> rat" where
  "score_players t pointsByPlayer [] = 0"
| "score_players t pointsByPlayer (r # rs) =
     of_int (pointsByPlayer r) * multiplier t r + score_players t pointsByPlayer rs"

text \<open>
  Modelled from the spec: \<open>computeTeamScore(team, pointsByPlayer)\<close> of section 4.2, the
  sum over the players of base points times multiplier; not among the sources.
\<close>

definition computeTeamScore :: "team \<Rightarrow> (string \<Rightarrow> int) \<Rightarrow> rat" where
  "computeTeamScore t pointsByPlayer = score_players t pointsByPlayer (members t)"

text \<open>A team as the data model describes it.\<close>

definition well_formed_team :: "team \<Rightarrow> bool" where
  "well_formed_team t \<longleftrightarrow>
     length (members t) = 11 \<and> distinct (members t)
     \<and> captain_ref t \<in> set (members t) \<and> vice_captain_ref t \<in> set (members t)
     \<and> captain_ref t \<noteq> vice_captain_ref t"

section \<open>Sample data\<close>

text \<open>Eleven players at 9 credits each, and pages built on a selection.\<close>

definition pl :: "string \<Rightarrow> rat \<Rightarrow> player" where
  "pl i c = \<lparr>pid = i, pname = i, role = ''batsman'', pteam = ''IND'', base_price = Num c\<rparr>"

definition squad :: "player list" where
  "squad = [pl ''p01'' 9, pl ''p02'' 9, pl ''p03'' 9, pl ''p04'' 9, pl ''p05'' 9, pl ''p06'' 9,
            pl ''p07'' 9, pl ''p08'' 9, pl ''p09'' 9, pl ''p10'' 9, pl ''p11'' 9]"

definition page_of :: "player list \<Rightarrow> player option \<Rightarrow> player option \<Rightarrow> page" where
  "page_of sel c v = initial_page\<lparr>selectedPlayers := sel, captain := c, viceCaptain := v\<rparr>"

text \<open>
  A server to run the page against. As it is told, it keeps every team it is sent and
  answers with the team's position, or refuses every team; and it keeps every join, or
  refuses every join. A refusal leaves its state as it is.
\<close>

record kept =
  kept_teams :: "teamPayload list"
  kept_joins :: "joinBody list"

definition empty_store :: kept where
  "empty_store = \<lparr>kept_teams = [], kept_joins = []\<rparr>"

definition storing_api :: "bool \<Rightarrow> bool \<Rightarrow> kept api" where
  "storing_api keep_teams keep_joins =
     \<lparr>post_teams = (\<lambda>payload st.
        if keep_teams then (Inr (length (kept_teams st)), st\<lparr>kept_teams := kept_teams st @ [payload]\<rparr>)
        else (Inl None, st)),
      post_join = (\<lambda>contestId body st.
        if keep_joins then (Inr (), st\<lparr>kept_joins := kept_joins st @ [body]\<rparr>)
        else (Inl (Some ''Contest is full''), st))\<rparr>"

text \<open>Eleven players at 10 credits each: 110 credits.\<close>

definition dear_squad :: "player list" where
  "dear_squad = map (\<lambda>p. p\<lparr>base_price := Num 10\<rparr>) squad"

definition dear_page :: page where
  "dear_page = page_of dear_squad (Some (pl ''p01'' 10)) (Some (pl ''p02'' 10))"

text \<open>One contest with room for two, and one user with funds.\<close>

definition sample_contest :: contest where
  "sample_contest =
     \<lparr>contest_match = ''m1'', fee = 5, pool = 8, max_entrants = 2, joined_count = 0,
      contest_state = Open\<rparr>"

definition sample_backend :: "rat \<Rightarrow> backend" where
  "sample_backend funds =
     \<lparr>contests = [''c1'' \<mapsto> sample_contest], teams = [], entries = [],
      balance = (\<lambda>u. if u = ''alice'' then funds else 0), transactions = []\<rparr>"

definition squad_refs :: "string list" where
  "squad_refs = [''p01'', ''p02'', ''p03'', ''p04'', ''p05'', ''p06'', ''p07'', ''p08'', ''p09'',
                 ''p10'', ''p11'']"

definition sample_team :: team where
  "sample_team =
     \<lparr>team_ident = 0, owner = ''alice'', team_match = ''m1'', members = squad_refs,
      captain_ref = ''p01'', vice_captain_ref = ''p02''\<rparr>"

definition sample_joins :: "(string \<times> string \<times> team) list" where
  "sample_joins =
     [(''alice'', ''c1'', sample_team), (''alice'', ''c1'', sample_team),
      (''bob'', ''c1'', sample_team)]"

definition sample_row :: "nat \<Rightarrow> nat \<Rightarrow> contest_row" where
  "sample_row m j =
     \<lparr>cid = ''c1'', cname = ''Mega Contest'', of_match_id = ''m1'', status = ''open'',
      entry_fee = Num 5, prize_pool = Num 8, max_users = parsed (of_nat m),
      joined_users = parsed (of_nat j)\<rparr>"

definition sample_points :: "string \<Rightarrow> int" where
  "sample_points r = (if r = ''p01'' then 108 else if r = ''p02'' then 31 else 10)"

definition priced :: "string \<Rightarrow> number \<Rightarrow> player" where
  "priced i x = \<lparr>pid = i, pname = i, role = ''bowler'', pteam = ''AUS'', base_price = x\<rparr>"

text \<open>One player at 8.0 credits and ten at 9.2: 100.0 credits in decimals.\<close>

definition tight_squad :: "player list" where
  "tight_squad =
     priced ''p01'' (parsed 8) #
     map (\<lambda>i. priced i (parsed (46 / 5)))
       [''p02'', ''p03'', ''p04'', ''p05'', ''p06'', ''p07'', ''p08'', ''p09'', ''p10'', ''p11'']"

text \<open>Ten players at 9 credits and one at the given price.\<close>

definition nines_and :: "number \<Rightarrow> player list" where
  "nines_and x =
     map (\<lambda>i. priced i (Num 9))
       [''p01'', ''p02'', ''p03'', ''p04'', ''p05'', ''p06'', ''p07'', ''p08'', ''p09'', ''p10'']
     @ [priced ''p11'' x]"

definition tight_page :: page where
  "tight_page =
     page_of tight_squad (Some (priced ''p01'' (parsed 8))) (Some (priced ''p02'' (parsed (46 / 5))))"

definition nines_page :: "number \<Rightarrow> page" where
  "nines_page x = page_of (nines_and x) (Some (priced ''p01'' (Num 9))) (Some (priced ''p11'' x))"

definition sample_clicks :: "event list" where
  "sample_clicks =
     [Toggle (pl ''p01'' 9), Toggle (pl ''p02'' 9), ClickC (pl ''p01'' 9),
      ClickVC (pl ''p02'' 9), ClickVC (pl ''p03'' 9), Toggle (pl ''p01'' 9)]"

section \<open>Properties\<close>

subsection \<open>The selection\<close>

lemma isSelected_iff: "isSelected p s \<longleftrightarrow> pid p \<in> set (map pid (selectedPlayers s))"
proof -
  have "isSelected p s \<longleftrightarrow> (\<exists>x \<in> set (selectedPlayers s). pid x = pid p)"
    by (simp add: isSelected_def find_None_iff) blast
  also have "\<dots> \<longleftrightarrow> pid p \<in> pid ` set (selectedPlayers s)"
    by (metis (no_types) image_iff)
  finally show ?thesis by simp
qed

lemma distinct_map_filter_pid:
  "distinct (map pid xs) \<Longrightarrow> distinct (map pid (filter P xs))"
  by (induction xs) auto

lemma togglePlayer_small:
  assumes "length (selectedPlayers s) \<le> 11"
  shows "length (selectedPlayers (togglePlayer p s)) \<le> 11"
proof -
  have "length (filter (\<lambda>q. pid q \<noteq> pid p) (selectedPlayers s)) \<le> length (selectedPlayers s)"
    by (rule length_filter_le)
  with assms have "length (filter (\<lambda>q. pid q \<noteq> pid p) (selectedPlayers s)) \<le> 11"
    by linarith
  with assms show ?thesis by (auto simp: togglePlayer_def)
qed

lemma togglePlayer_distinct:
  assumes "distinct (map pid (selectedPlayers s))"
  shows "distinct (map pid (selectedPlayers (togglePlayer p s)))"
  using assms by (auto simp: togglePlayer_def isSelected_iff distinct_map_filter_pid)

lemma toggles_invariant:
  assumes "length (selectedPlayers s) \<le> 11" and "distinct (map pid (selectedPlayers s))"
  shows "length (selectedPlayers (toggles s ps)) \<le> 11
         \<and> distinct (map pid (selectedPlayers (toggles s ps)))"
  using assms
proof (induction ps arbitrary: s)
  case Nil
  then show ?case by (simp add: toggles_def)
next
  case (Cons p ps)
  have "toggles s (p # ps) = toggles (togglePlayer p s) ps"
    by (simp add: toggles_def)
  with Cons.IH [of "togglePlayer p s"] Cons.prems show ?case
    by (simp add: togglePlayer_small togglePlayer_distinct)
qed

text \<open>Unfolding the sample data, and a submission to the sample server.\<close>

lemmas sample_defs =
  page_of_def squad_def initial_page_def pl_def empty_store_def

lemmas submit_defs =
  handleSubmit_def storing_api_def payload_of_def holds_id_def Let_def

subsection \<open>Toggling players\<close>

lemma togglePlayer_selected:
  "isSelected p s \<Longrightarrow>
     selectedPlayers (togglePlayer p s) = filter (\<lambda>q. pid q \<noteq> pid p) (selectedPlayers s)"
  by (simp add: togglePlayer_def)

lemma togglePlayer_unselected:
  "\<not> isSelected p s \<Longrightarrow>
     selectedPlayers (togglePlayer p s) =
       (if length (selectedPlayers s) < 11 then selectedPlayers s @ [p] else selectedPlayers s)"
  by (simp add: togglePlayer_def)

lemma togglePlayer_removes: "isSelected p s \<Longrightarrow> \<not> isSelected p (togglePlayer p s)"
  by (auto simp: isSelected_iff togglePlayer_selected)

text \<open>
  C9. Whatever players are toggled, in whatever order, from an empty selection, the
  selection holds at most 11 players and no player id twice. Toggling a selected player
  removes it; toggling an unselected one appends it when fewer than 11 are selected and
  changes nothing otherwise.
\<close>

theorem selection_at_most_eleven_distinct:
  assumes "selectedPlayers s0 = []"
  shows "length (selectedPlayers (toggles s0 ps)) \<le> 11
       \<and> distinct (map pid (selectedPlayers (toggles s0 ps)))
       \<and> (isSelected p s \<longrightarrow>
            selectedPlayers (togglePlayer p s) = filter (\<lambda>q. pid q \<noteq> pid p) (selectedPlayers s)
            \<and> \<not> isSelected p (togglePlayer p s))
       \<and> (\<not> isSelected p s \<longrightarrow>
            selectedPlayers (togglePlayer p s) =
              (if length (selectedPlayers s) < 11 then selectedPlayers s @ [p]
               else selectedPlayers s))"
proof -
  have "length (selectedPlayers (toggles s0 ps)) \<le> 11
        \<and> distinct (map pid (selectedPlayers (toggles s0 ps)))"
    by (rule toggles_invariant) (simp_all add: assms)
  then show ?thesis
    by (simp add: togglePlayer_selected togglePlayer_unselected togglePlayer_removes)
qed

lemma toggles_squad: "toggles initial_page (squad @ [pl ''p12'' 9]) = page_of squad None None"
  by (simp add: toggles_def togglePlayer_def isSelected_def sample_defs)

theorem selection_at_most_eleven_distinct_witness:
  "selectedPlayers initial_page = []
   \<and> selectedPlayers (toggles initial_page (squad @ [pl ''p12'' 9])) = squad
   \<and> length (selectedPlayers (toggles initial_page (squad @ [pl ''p12'' 9]))) \<le> 11
   \<and> distinct (map pid (selectedPlayers (toggles initial_page (squad @ [pl ''p12'' 9]))))
   \<and> isSelected (pl ''p03'' 9) (page_of squad None None)
   \<and> length (selectedPlayers (togglePlayer (pl ''p03'' 9) (page_of squad None None))) = 10
   \<and> \<not> isSelected (pl ''p12'' 9) (page_of squad None None)
   \<and> selectedPlayers (togglePlayer (pl ''p12'' 9) (page_of squad None None)) = squad"
proof -
  have e: "selectedPlayers initial_page = []"
    by (simp add: initial_page_def)
  have a: "isSelected (pl ''p03'' 9) (page_of squad None None)"
    by (simp add: isSelected_def sample_defs)
  have b: "\<not> isSelected (pl ''p12'' 9) (page_of squad None None)"
    by (simp add: isSelected_def sample_defs)
  have l: "length (selectedPlayers (page_of squad None None)) = 11"
    by (simp add: sample_defs)
  have f: "length (filter (\<lambda>q. pid q \<noteq> pid (pl ''p03'' 9)) (selectedPlayers (page_of squad None None))) = 10"
    by (simp add: sample_defs)
  have g: "selectedPlayers (page_of squad None None) = squad"
    by (simp add: sample_defs)
  from selection_at_most_eleven_distinct
    [OF e, of "squad @ [pl ''p12'' 9]" "pl ''p03'' 9" "page_of squad None None"]
    selection_at_most_eleven_distinct
    [OF e, of "squad @ [pl ''p12'' 9]" "pl ''p12'' 9" "page_of squad None None"]
    e a b l f g toggles_squad
  show ?thesis by simp
qed

subsection \<open>Captain and vice-captain designations\<close>

lemma designated_in_None [simp]: "designated_in None s"
  by (simp add: designated_in_def)

lemma togglePlayer_keeps_designation:
  assumes "designated_in d s"
  shows "designated_in (if holds_id d p then None else d) (togglePlayer p s)"
proof (cases d)
  case None
  then show ?thesis by simp
next
  case (Some c)
  show ?thesis
  proof (cases "pid c = pid p")
    case True
    with Some show ?thesis by (simp add: holds_id_def)
  next
    case False
    from assms Some have "pid c \<in> set (map pid (selectedPlayers s))"
      by (simp add: designated_in_def)
    with False have "pid c \<in> set (map pid (selectedPlayers (togglePlayer p s)))"
      by (auto simp: togglePlayer_def)
    with Some False show ?thesis by (simp add: holds_id_def designated_in_def)
  qed
qed

lemma togglePlayer_captain:
  "captain (togglePlayer p s) =
     (if isSelected p s \<and> holds_id (captain s) p then None else captain s)"
  by (simp add: togglePlayer_def)

lemma togglePlayer_viceCaptain:
  "viceCaptain (togglePlayer p s) =
     (if isSelected p s \<and> holds_id (viceCaptain s) p then None else viceCaptain s)"
  by (simp add: togglePlayer_def)

lemma designated_in_not_held:
  assumes "designated_in d s" and "\<not> isSelected p s"
  shows "\<not> holds_id d p"
  using assms by (cases d) (auto simp: designated_in_def holds_id_def isSelected_iff)

lemma togglePlayer_designations:
  assumes "designated_in (captain s) s" and "designated_in (viceCaptain s) s"
  shows "designated_in (captain (togglePlayer p s)) (togglePlayer p s)
       \<and> designated_in (viceCaptain (togglePlayer p s)) (togglePlayer p s)"
proof -
  have c: "captain (togglePlayer p s) = (if holds_id (captain s) p then None else captain s)"
    using designated_in_not_held [OF assms(1), of p] by (auto simp: togglePlayer_captain)
  have v: "viceCaptain (togglePlayer p s) =
             (if holds_id (viceCaptain s) p then None else viceCaptain s)"
    using designated_in_not_held [OF assms(2), of p] by (auto simp: togglePlayer_viceCaptain)
  show ?thesis
    unfolding c v
    using togglePlayer_keeps_designation [OF assms(1), of p]
      togglePlayer_keeps_designation [OF assms(2), of p] by simp
qed

lemma page_step_designations:
  assumes "designated_in (captain s) s" and "designated_in (viceCaptain s) s"
  shows "designated_in (captain (page_step s ev)) (page_step s ev)
       \<and> designated_in (viceCaptain (page_step s ev)) (page_step s ev)"
proof (cases ev)
  case (Toggle p)
  with togglePlayer_designations [OF assms] show ?thesis by simp
next
  case (ClickC p)
  with assms show ?thesis
    by (auto simp: setCaptain_def designated_in_def isSelected_iff split: option.splits)
next
  case (ClickVC p)
  with assms show ?thesis
    by (auto simp: setViceCaptain_def designated_in_def isSelected_iff split: option.splits)
qed

lemma run_events_designations:
  assumes "designated_in (captain s) s" and "designated_in (viceCaptain s) s"
  shows "designated_in (captain (run_events s evs)) (run_events s evs)
       \<and> designated_in (viceCaptain (run_events s evs)) (run_events s evs)"
  using assms
proof (induction evs arbitrary: s)
  case Nil
  then show ?case by (simp add: run_events_def)
next
  case (Cons ev evs)
  have "run_events s (ev # evs) = run_events (page_step s ev) evs"
    by (simp add: run_events_def)
  with Cons.IH [of "page_step s ev"] page_step_designations [OF Cons.prems, of ev]
  show ?case by simp
qed

lemma toggles_run_events: "toggles s ps = run_events s (map Toggle ps)"
  by (induction ps arbitrary: s) (simp_all add: toggles_def run_events_def)

lemma page_step_from_roster:
  assumes "set (selectedPlayers s) \<subseteq> R" and "\<forall>c. captain s = Some c \<longrightarrow> c \<in> R"
    and "\<forall>c. viceCaptain s = Some c \<longrightarrow> c \<in> R" and "event_player ev \<in> R"
  shows "set (selectedPlayers (page_step s ev)) \<subseteq> R
       \<and> (\<forall>c. captain (page_step s ev) = Some c \<longrightarrow> c \<in> R)
       \<and> (\<forall>c. viceCaptain (page_step s ev) = Some c \<longrightarrow> c \<in> R)"
proof (cases ev)
  case (Toggle p)
  with assms show ?thesis by (auto simp: togglePlayer_def)
next
  case (ClickC p)
  with assms show ?thesis by (auto simp: setCaptain_def)
next
  case (ClickVC p)
  with assms show ?thesis by (auto simp: setViceCaptain_def)
qed

lemma run_events_from_roster:
  assumes "set (selectedPlayers s) \<subseteq> R" and "\<forall>c. captain s = Some c \<longrightarrow> c \<in> R"
    and "\<forall>c. viceCaptain s = Some c \<longrightarrow> c \<in> R" and "\<forall>ev \<in> set evs. event_player ev \<in> R"
  shows "set (selectedPlayers (run_events s evs)) \<subseteq> R
       \<and> (\<forall>c. captain (run_events s evs) = Some c \<longrightarrow> c \<in> R)
       \<and> (\<forall>c. viceCaptain (run_events s evs) = Some c \<longrightarrow> c \<in> R)"
  using assms
proof (induction evs arbitrary: s)
  case Nil
  then show ?case by (simp add: run_events_def)
next
  case (Cons ev evs)
  from Cons.prems(4) have here: "event_player ev \<in> R"
    and later: "\<forall>ev \<in> set evs. event_player ev \<in> R"
    by simp_all
  have "run_events s (ev # evs) = run_events (page_step s ev) evs"
    by (simp add: run_events_def)
  moreover from page_step_from_roster [OF Cons.prems(1-3) here]
  have "set (selectedPlayers (page_step s ev)) \<subseteq> R"
    and "\<forall>c. captain (page_step s ev) = Some c \<longrightarrow> c \<in> R"
    and "\<forall>c. viceCaptain (page_step s ev) = Some c \<longrightarrow> c \<in> R"
    by blast+
  from Cons.IH [OF this later] have
    "set (selectedPlayers (run_events (page_step s ev) evs)) \<subseteq> R
     \<and> (\<forall>c. captain (run_events (page_step s ev) evs) = Some c \<longrightarrow> c \<in> R)
     \<and> (\<forall>c. viceCaptain (run_events (page_step s ev) evs) = Some c \<longrightarrow> c \<in> R)" .
  ultimately show ?case by simp
qed

lemma designated_member:
  assumes "distinct (map pid rows)" and "set (selectedPlayers s) \<subseteq> set rows"
    and "\<forall>c. d = Some c \<longrightarrow> c \<in> set rows" and "designated_in d s"
  shows "member_or_null d s"
proof (cases d)
  case None
  then show ?thesis by (simp add: member_or_null_def)
next
  case (Some c)
  with assms(4) obtain p where p: "p \<in> set (selectedPlayers s)" "pid p = pid c"
    by (auto simp: designated_in_def)
  from assms(1) have "inj_on pid (set rows)" by (simp add: distinct_map)
  moreover from p(1) assms(2) have "p \<in> set rows" by blast
  moreover from Some assms(3) have "c \<in> set rows" by simp
  ultimately have "p = c" using p(2) by (simp add: inj_on_def)
  with p(1) Some show ?thesis by (simp add: member_or_null_def)
qed

text \<open>
  C10. From a page whose captain and vice-captain are each null or selected (the
  initial page is one), every sequence of toggles, also with clicks on the C and VC
  buttons in between, leaves each designation null or the id of a selected player.
  Deselecting the player who holds a designation clears it. When the players come from
  a list with no id twice, as the rows of the page do, a designation that is not null is
  one of the selected player objects itself.
\<close>

theorem designations_null_or_selected:
  assumes "designated_in (captain s0) s0" and "designated_in (viceCaptain s0) s0"
  shows "designated_in (captain (toggles s0 ps)) (toggles s0 ps)
       \<and> designated_in (viceCaptain (toggles s0 ps)) (toggles s0 ps)
       \<and> designated_in (captain (run_events s0 evs)) (run_events s0 evs)
       \<and> designated_in (viceCaptain (run_events s0 evs)) (run_events s0 evs)
       \<and> (isSelected p s \<and> holds_id (captain s) p \<longrightarrow> captain (togglePlayer p s) = None)
       \<and> (isSelected p s \<and> holds_id (viceCaptain s) p \<longrightarrow> viceCaptain (togglePlayer p s) = None)
       \<and> (distinct (map pid rows) \<and> set (selectedPlayers s0) \<subseteq> set rows
            \<and> (\<forall>c. captain s0 = Some c \<longrightarrow> c \<in> set rows)
            \<and> (\<forall>c. viceCaptain s0 = Some c \<longrightarrow> c \<in> set rows)
            \<and> (\<forall>ev \<in> set evs. event_player ev \<in> set rows) \<longrightarrow>
          member_or_null (captain (run_events s0 evs)) (run_events s0 evs)
          \<and> member_or_null (viceCaptain (run_events s0 evs)) (run_events s0 evs))"
proof -
  have ids: "designated_in (captain (run_events s0 evs)) (run_events s0 evs)
       \<and> designated_in (viceCaptain (run_events s0 evs)) (run_events s0 evs)"
    by (rule run_events_designations [OF assms])
  have objects: "member_or_null (captain (run_events s0 evs)) (run_events s0 evs)
          \<and> member_or_null (viceCaptain (run_events s0 evs)) (run_events s0 evs)"
    if r: "distinct (map pid rows) \<and> set (selectedPlayers s0) \<subseteq> set rows
            \<and> (\<forall>c. captain s0 = Some c \<longrightarrow> c \<in> set rows)
            \<and> (\<forall>c. viceCaptain s0 = Some c \<longrightarrow> c \<in> set rows)
            \<and> (\<forall>ev \<in> set evs. event_player ev \<in> set rows)"
  proof -
    from r have d: "distinct (map pid rows)" by simp
    from r run_events_from_roster [of s0 "set rows" evs]
    have sel: "set (selectedPlayers (run_events s0 evs)) \<subseteq> set rows"
      and cap: "\<forall>c. captain (run_events s0 evs) = Some c \<longrightarrow> c \<in> set rows"
      and vic: "\<forall>c. viceCaptain (run_events s0 evs) = Some c \<longrightarrow> c \<in> set rows"
      by blast+
    from ids have "designated_in (captain (run_events s0 evs)) (run_events s0 evs)"
      and "designated_in (viceCaptain (run_events s0 evs)) (run_events s0 evs)"
      by simp_all
    then show ?thesis
      using designated_member [OF d sel cap] designated_member [OF d sel vic] by simp
  qed
  from ids objects run_events_designations [OF assms, of "map Toggle ps"] show ?thesis
    by (simp add: toggles_run_events togglePlayer_captain togglePlayer_viceCaptain)
qed

theorem designations_null_or_selected_witness:
  "designated_in (captain initial_page) initial_page
   \<and> designated_in (viceCaptain initial_page) initial_page
   \<and> selectedPlayers (run_events initial_page sample_clicks) = [pl ''p02'' 9]
   \<and> captain (run_events initial_page sample_clicks) = None
   \<and> viceCaptain (run_events initial_page sample_clicks) = Some (pl ''p02'' 9)
   \<and> designated_in (viceCaptain (run_events initial_page sample_clicks))
        (run_events initial_page sample_clicks)
   \<and> distinct (map pid squad)
   \<and> member_or_null (viceCaptain (run_events initial_page sample_clicks))
        (run_events initial_page sample_clicks)
   \<and> isSelected (pl ''p01'' 9) (page_of squad (Some (pl ''p01'' 9)) (Some (pl ''p01'' 9)))
   \<and> captain (togglePlayer (pl ''p01'' 9)
        (page_of squad (Some (pl ''p01'' 9)) (Some (pl ''p01'' 9)))) = None
   \<and> viceCaptain (togglePlayer (pl ''p01'' 9)
        (page_of squad (Some (pl ''p01'' 9)) (Some (pl ''p01'' 9)))) = None"
proof -
  have c: "designated_in (captain initial_page) initial_page"
    and v: "designated_in (viceCaptain initial_page) initial_page"
    by (simp_all add: initial_page_def designated_in_def)
  have r: "run_events initial_page sample_clicks
           = initial_page\<lparr>selectedPlayers := [pl ''p02'' 9], captain := None,
               viceCaptain := Some (pl ''p02'' 9)\<rparr>"
    by (simp add: run_events_def sample_clicks_def togglePlayer_def isSelected_def
        setCaptain_def setViceCaptain_def holds_id_def sample_defs)
  have a: "isSelected (pl ''p01'' 9) (page_of squad (Some (pl ''p01'' 9)) (Some (pl ''p01'' 9)))"
    by (simp add: isSelected_def sample_defs)
  have h: "holds_id (captain (page_of squad (Some (pl ''p01'' 9)) (Some (pl ''p01'' 9)))) (pl ''p01'' 9)"
    "holds_id (viceCaptain (page_of squad (Some (pl ''p01'' 9)) (Some (pl ''p01'' 9)))) (pl ''p01'' 9)"
    by (simp_all add: holds_id_def sample_defs)
  have d: "distinct (map pid squad)"
    by (simp add: sample_defs)
  have e: "set (selectedPlayers initial_page) \<subseteq> set squad
           \<and> (\<forall>c. captain initial_page = Some c \<longrightarrow> c \<in> set squad)
           \<and> (\<forall>c. viceCaptain initial_page = Some c \<longrightarrow> c \<in> set squad)
           \<and> (\<forall>ev \<in> set sample_clicks. event_player ev \<in> set squad)"
    by (simp add: sample_clicks_def sample_defs)
  from designations_null_or_selected [OF c v, of "[]" sample_clicks "pl ''p01'' 9"
      "page_of squad (Some (pl ''p01'' 9)) (Some (pl ''p01'' 9))" squad] a h d e
  have "designated_in (viceCaptain (run_events initial_page sample_clicks))
          (run_events initial_page sample_clicks)
        \<and> member_or_null (viceCaptain (run_events initial_page sample_clicks))
          (run_events initial_page sample_clicks)
        \<and> captain (togglePlayer (pl ''p01'' 9)
             (page_of squad (Some (pl ''p01'' 9)) (Some (pl ''p01'' 9)))) = None
        \<and> viceCaptain (togglePlayer (pl ''p01'' 9)
             (page_of squad (Some (pl ''p01'' 9)) (Some (pl ''p01'' 9)))) = None"
    by blast
  with c v a d show ?thesis by (simp add: r)
qed

subsection \<open>Rounding to binary64\<close>

lemma two_powi_less_iff: "(2::rat) powi a < 2 powi b \<longleftrightarrow> a < b"
proof
  assume "(2::rat) powi a < 2 powi b"
  show "a < b"
  proof (rule ccontr)
    assume "\<not> a < b"
    then have "b \<le> a" by simp
    then have "(2::rat) powi b \<le> 2 powi a" by (rule power_int_increasing) simp
    with \<open>(2::rat) powi a < 2 powi b\<close> show False by simp
  qed
next
  assume "a < b"
  then show "(2::rat) powi a < 2 powi b" by (rule power_int_strict_increasing) simp
qed

lemma floor_log2_lower:
  assumes "0 < q"
  shows "2 powi floor_log2 q \<le> q"
proof (cases "1 \<le> q")
  case True
  then have pos: "0 < \<lfloor>q\<rfloor>" by linarith
  from bitlen_bounds [OF pos] have "2 ^ nat (bitlen \<lfloor>q\<rfloor> - 1) \<le> \<lfloor>q\<rfloor>" by simp
  then have "(of_int (2 ^ nat (bitlen \<lfloor>q\<rfloor> - 1)) :: rat) \<le> of_int \<lfloor>q\<rfloor>"
    by (simp only: of_int_le_iff)
  then have "(2::rat) ^ nat (bitlen \<lfloor>q\<rfloor> - 1) \<le> q"
    by (simp add: le_floor_iff)
  moreover from pos have "0 \<le> bitlen \<lfloor>q\<rfloor> - 1"
    by (simp add: bitlen_alt_def)
  ultimately show ?thesis using True
    by (simp add: floor_log2_def power_int_nonneg_exp)
next
  case False
  with assms have "1 < 1 / q" by simp
  define m where "m = \<lceil>1 / q\<rceil> - 1"
  from \<open>1 < 1 / q\<close> have "1 < \<lceil>1 / q\<rceil>" by (simp add: less_ceiling_iff)
  then have pos: "0 < m" by (simp add: m_def)
  from bitlen_bounds [OF pos] have "m + 1 \<le> 2 ^ nat (bitlen m)" by simp
  then have "(of_int (m + 1) :: rat) \<le> of_int (2 ^ nat (bitlen m))"
    by (simp only: of_int_le_iff)
  then have "1 / q \<le> 2 ^ nat (bitlen m)"
    by (simp add: m_def ceiling_le_iff)
  with assms have "1 \<le> q * 2 ^ nat (bitlen m)"
    by (simp add: field_simps)
  then have "1 / 2 ^ nat (bitlen m) \<le> q"
    by (simp add: field_simps)
  moreover have "(2::rat) powi (- bitlen m) = 1 / 2 ^ nat (bitlen m)"
    using bitlen_nonneg [of m] by (simp add: power_int_minus power_int_nonneg_exp field_simps)
  ultimately show ?thesis using False
    by (simp add: floor_log2_def m_def)
qed

lemma floor_log2_upper:
  assumes "0 < q"
  shows "q < 2 powi (floor_log2 q + 1)"
proof (cases "1 \<le> q")
  case True
  then have pos: "0 < \<lfloor>q\<rfloor>" by linarith
  from bitlen_bounds [OF pos] have "\<lfloor>q\<rfloor> + 1 \<le> 2 ^ nat (bitlen \<lfloor>q\<rfloor>)" by simp
  then have "(of_int (\<lfloor>q\<rfloor> + 1) :: rat) \<le> of_int (2 ^ nat (bitlen \<lfloor>q\<rfloor>))"
    by (simp only: of_int_le_iff)
  then have "(of_int (\<lfloor>q\<rfloor> + 1) :: rat) \<le> 2 ^ nat (bitlen \<lfloor>q\<rfloor>)" by simp
  moreover have "q < of_int (\<lfloor>q\<rfloor> + 1)" by linarith
  ultimately have "q < 2 ^ nat (bitlen \<lfloor>q\<rfloor>)" by linarith
  with True show ?thesis
    using bitlen_nonneg [of "\<lfloor>q\<rfloor>"] by (simp add: floor_log2_def power_int_nonneg_exp)
next
  case False
  with assms have "1 < 1 / q" by simp
  define m where "m = \<lceil>1 / q\<rceil> - 1"
  from \<open>1 < 1 / q\<close> have "1 < \<lceil>1 / q\<rceil>" by (simp add: less_ceiling_iff)
  then have pos: "0 < m" by (simp add: m_def)
  then have b1: "1 \<le> bitlen m" by (simp add: bitlen_alt_def)
  from bitlen_bounds [OF pos] have "2 ^ nat (bitlen m - 1) \<le> m" by simp
  then have "(of_int (2 ^ nat (bitlen m - 1)) :: rat) \<le> of_int m"
    by (simp only: of_int_le_iff)
  then have "(2::rat) ^ nat (bitlen m - 1) \<le> of_int m" by simp
  moreover have "(of_int m :: rat) < 1 / q" unfolding m_def by linarith
  ultimately have "(2::rat) ^ nat (bitlen m - 1) < 1 / q" by linarith
  with assms have "q * 2 ^ nat (bitlen m - 1) < 1"
    by (simp add: field_simps)
  then have "q < 1 / 2 ^ nat (bitlen m - 1)"
    by (simp add: field_simps)
  moreover have "(2::rat) powi (- bitlen m + 1) = 1 / 2 ^ nat (bitlen m - 1)"
  proof -
    have "(2::rat) powi (- bitlen m + 1) = 2 powi (- (bitlen m - 1))" by simp
    also have "\<dots> = 1 / 2 powi (bitlen m - 1)" by (simp only: power_int_minus_divide)
    also have "\<dots> = 1 / 2 ^ nat (bitlen m - 1)" using b1 by (simp add: power_int_nonneg_exp)
    finally show ?thesis .
  qed
  ultimately show ?thesis using False
    by (simp add: floor_log2_def m_def)
qed

lemma floor_log2_unique:
  assumes "2 powi k \<le> q" and "q < 2 powi (k + 1)"
  shows "floor_log2 q = k"
proof -
  have "(0::rat) < 2 powi k" by simp
  with assms(1) have q: "0 < q" by linarith
  from floor_log2_lower [OF q] assms(2) have "(2::rat) powi floor_log2 q < 2 powi (k + 1)"
    by linarith
  then have "floor_log2 q < k + 1" by (simp only: two_powi_less_iff)
  moreover from floor_log2_upper [OF q] assms(1) have "(2::rat) powi k < 2 powi (floor_log2 q + 1)"
    by linarith
  then have "k < floor_log2 q + 1" by (simp only: two_powi_less_iff)
  ultimately show ?thesis by simp
qed

lemma round_half_even_near:
  assumes "\<bar>y - of_int n\<bar> < 1 / 2"
  shows "round_half_even y = n"
proof (cases "of_int n \<le> y")
  case True
  with assms have "\<lfloor>y\<rfloor> = n" by (intro floor_unique) linarith+
  with assms True show ?thesis by (simp add: round_half_even_def Let_def)
next
  case False
  with assms have "of_int n - 1 \<le> y" and "y < of_int n - 1 + 1"
    by linarith+
  then have "of_int (n - 1) \<le> y" and "y < of_int (n - 1) + 1"
    by simp_all
  then have f: "\<lfloor>y\<rfloor> = n - 1" by (rule floor_unique)
  from assms False have "1 / 2 < y - (of_int n - 1)" by linarith
  then have "1 / 2 < y - of_int (n - 1)" by simp
  with f show ?thesis by (simp add: round_half_even_def Let_def)
qed

lemma round_half_even_of_int [simp]: "round_half_even (of_int n) = n"
  by (rule round_half_even_near) simp

lemma round_half_even_zero [simp]: "round_half_even 0 = 0"
  using round_half_even_of_int [of 0] by simp

lemma min_subnormal_pos [simp]: "0 < min_subnormal"
  by (simp only: min_subnormal_def zero_less_power_int zero_less_numeral)

lemma two_powi_split: "(2::rat) powi e = 2 powi (e + k) * 2 powi (- k)"
  by (simp flip: power_int_add)

lemma two_powi_grid:
  assumes "- 1074 \<le> e"
  shows "(2::rat) powi e = of_int (2 ^ nat (e + 1074)) * min_subnormal"
proof -
  from assms have "(2::rat) powi (e + 1074) = of_int (2 ^ nat (e + 1074))"
    by (simp add: power_int_nonneg_exp)
  with two_powi_split [of e 1074] show ?thesis
    by (simp only: min_subnormal_def)
qed

lemma round_half_even_le_neg:
  assumes "y \<le> - 1"
  shows "round_half_even y \<le> - 1"
proof (cases "\<lfloor>y\<rfloor> = - 1")
  case True
  then have "- 1 \<le> y" by linarith
  with assms have "y = of_int (- 1)" by simp
  then show ?thesis by (simp only: round_half_even_of_int)
next
  case False
  moreover from assms have "\<lfloor>y\<rfloor> \<le> - 1" by (simp add: floor_le_iff)
  ultimately have "\<lfloor>y\<rfloor> + 1 \<le> - 1" by simp
  then show ?thesis by (simp add: round_half_even_def Let_def)
qed

lemma round_half_even_ge_pos:
  assumes "1 \<le> y"
  shows "1 \<le> round_half_even y"
proof -
  from assms have "1 \<le> \<lfloor>y\<rfloor>" by (simp add: le_floor_iff)
  then show ?thesis by (simp add: round_half_even_def Let_def)
qed

lemma ulp_exp_ge: "- 1074 \<le> ulp_exp q"
  by (simp add: ulp_exp_def)

lemma ulp_le_abs:
  assumes "on_grid q" and "q \<noteq> 0"
  shows "2 powi ulp_exp q \<le> \<bar>q\<bar>"
proof -
  from assms obtain n :: int where n: "q = of_int n * min_subnormal" and "n \<noteq> 0"
    by (auto simp: on_grid_def)
  then have "1 \<le> \<bar>n\<bar>" by simp
  then have "(of_int 1 :: rat) \<le> of_int \<bar>n\<bar>" by (simp only: of_int_le_iff)
  then have "1 \<le> \<bar>of_int n :: rat\<bar>" by simp
  then have "1 * min_subnormal \<le> \<bar>of_int n :: rat\<bar> * min_subnormal"
    using min_subnormal_pos by (intro mult_right_mono) (simp_all add: less_imp_le)
  moreover have "\<bar>q\<bar> = \<bar>of_int n :: rat\<bar> * min_subnormal"
    using min_subnormal_pos by (simp add: n abs_mult less_imp_le)
  ultimately have "min_subnormal \<le> \<bar>q\<bar>"
    by simp
  then have g: "2 powi (- 1074) \<le> \<bar>q\<bar>"
    by (simp only: min_subnormal_def)
  from assms(2) have "0 < \<bar>q\<bar>" by simp
  from floor_log2_lower [OF this] have "2 powi floor_log2 \<bar>q\<bar> \<le> \<bar>q\<bar>" .
  moreover have "(2::rat) powi (floor_log2 \<bar>q\<bar> - 52) \<le> 2 powi floor_log2 \<bar>q\<bar>"
    by (rule power_int_increasing) simp_all
  ultimately have h: "2 powi (floor_log2 \<bar>q\<bar> - 52) \<le> \<bar>q\<bar>" by linarith
  show ?thesis
  proof (cases "floor_log2 \<bar>q\<bar> - 52 \<le> - 1074")
    case True
    then have "ulp_exp q = - 1074" by (simp add: ulp_exp_def)
    with g show ?thesis by (simp only:)
  next
    case False
    then have "ulp_exp q = floor_log2 \<bar>q\<bar> - 52" by (simp add: ulp_exp_def)
    with h show ?thesis by (simp only:)
  qed
qed

lemma round64_zero [simp]: "round64 0 = 0"
  by (simp add: round64_def)

lemma round64_neg:
  assumes "on_grid q" and "q < 0"
  shows "round64 q < 0"
proof -
  let ?u = "(2::rat) powi ulp_exp q"
  have u: "0 < ?u" by simp
  from ulp_le_abs [OF assms(1)] assms(2) have "?u \<le> - q" by simp
  with u have "q / ?u \<le> - 1" by (simp add: field_simps)
  then have "round_half_even (q / ?u) \<le> - 1" by (rule round_half_even_le_neg)
  then have "(of_int (round_half_even (q / ?u)) :: rat) \<le> - 1"
    by (metis of_int_le_iff of_int_minus of_int_1)
  then have "of_int (round_half_even (q / ?u)) * ?u < 0"
    using u by (simp add: mult_less_0_iff)
  then show ?thesis by (simp add: round64_def)
qed

lemma round64_pos:
  assumes "on_grid q" and "0 < q"
  shows "0 < round64 q"
proof -
  let ?u = "(2::rat) powi ulp_exp q"
  have u: "0 < ?u" by simp
  from ulp_le_abs [OF assms(1)] assms(2) have "?u \<le> q" by simp
  with u have "1 \<le> q / ?u" by (simp add: field_simps)
  then have "1 \<le> round_half_even (q / ?u)" by (rule round_half_even_ge_pos)
  then have "(1::rat) \<le> of_int (round_half_even (q / ?u))"
    by (metis of_int_le_iff of_int_1)
  then have "0 < of_int (round_half_even (q / ?u)) * ?u"
    using u by (simp add: zero_less_mult_iff)
  then show ?thesis by (simp add: round64_def)
qed

lemma round64_negative_iff:
  assumes "on_grid q"
  shows "round64 q < 0 \<longleftrightarrow> q < 0"
proof (cases "q < 0")
  case True
  with round64_neg [OF assms] show ?thesis by simp
next
  case False
  show ?thesis
  proof (cases "q = 0")
    case True
    then show ?thesis by simp
  next
    case nz: False
    with False have "0 < q" by simp
    from round64_pos [OF assms this] False show ?thesis by simp
  qed
qed

lemma on_grid_round64: "on_grid (round64 q)"
proof -
  have "round64 q =
      of_int (round_half_even (q / 2 powi ulp_exp q)) *
        (of_int (2 ^ nat (ulp_exp q + 1074)) * min_subnormal)"
    using two_powi_grid [OF ulp_exp_ge, of q] by (simp only: round64_def)
  also have "\<dots> =
      of_int (round_half_even (q / 2 powi ulp_exp q) * 2 ^ nat (ulp_exp q + 1074)) * min_subnormal"
    by (simp only: of_int_mult mult.assoc)
  finally show ?thesis unfolding on_grid_def by blast
qed

lemma on_grid_of_int: "on_grid (of_int n)"
proof -
  have "(1::rat) = of_int (2 ^ nat (0 + 1074)) * min_subnormal"
    using two_powi_grid [of 0] by simp
  then have "(of_int n :: rat) = of_int n * (of_int (2 ^ nat (0 + 1074)) * min_subnormal)"
    by (simp only: mult_1_right)
  also have "\<dots> = of_int (n * 2 ^ nat (0 + 1074)) * min_subnormal"
    by (simp only: of_int_mult mult.assoc)
  finally show ?thesis unfolding on_grid_def by blast
qed

lemma on_grid_diff: "on_grid a \<Longrightarrow> on_grid b \<Longrightarrow> on_grid (a - b)"
proof -
  assume "on_grid a" "on_grid b"
  then obtain m n :: int where "a = of_int m * min_subnormal" "b = of_int n * min_subnormal"
    by (auto simp: on_grid_def)
  then have "a - b = of_int (m - n) * min_subnormal"
    by (simp add: algebra_simps)
  then show ?thesis unfolding on_grid_def by blast
qed

lemma ulp_exp_cert:
  assumes "- 1074 \<le> e" and "2 powi (e + 52) \<le> \<bar>q\<bar>" and "\<bar>q\<bar> < 2 powi (e + 53)"
  shows "ulp_exp q = e"
proof -
  from assms(2,3) have "floor_log2 \<bar>q\<bar> = e + 52"
    by (intro floor_log2_unique) (simp_all add: add.commute add.left_commute)
  with assms(1) show ?thesis by (simp add: ulp_exp_def)
qed

lemma round64_cert:
  assumes "- 1074 \<le> e" and "2 powi (e + 52) \<le> \<bar>q\<bar>" and "\<bar>q\<bar> < 2 powi (e + 53)"
    and "\<bar>q / 2 powi e - of_int n\<bar> < 1 / 2"
  shows "round64 q = of_int n * 2 powi e"
  using round_half_even_near [OF assms(4)] ulp_exp_cert [OF assms(1-3)]
  by (simp add: round64_def)

lemma fl_cert:
  assumes "- 1074 \<le> e" and "2 powi (e + 52) \<le> \<bar>q\<bar>" and "\<bar>q\<bar> < 2 powi (e + 53)"
    and "\<bar>q / 2 powi e - of_int n\<bar> < 1 / 2" and "\<bar>of_int n * 2 powi e :: rat\<bar> < 2 ^ 1024"
  shows "fl q = Num (of_int n * 2 powi e)"
proof -
  from assms(5)
  have "\<not> (2::rat) ^ 1024 \<le> of_int n * 2 powi e"
    and "\<not> of_int n * 2 powi e \<le> - ((2::rat) ^ 1024)"
    by linarith+
  with round64_cert [OF assms(1-4)] show ?thesis
    by (simp only: fl_def Let_def if_False)
qed

lemma round64_half:
  assumes "\<bar>of_int k / 2 :: rat\<bar> < 2 ^ 52"
  shows "round64 (of_int k / 2) = of_int k / 2"
proof (cases "k = 0")
  case True
  then show ?thesis by simp
next
  case False
  let ?q = "of_int k / 2 :: rat"
  from False have pos: "0 < \<bar>?q\<bar>" by simp
  from floor_log2_lower [OF pos] assms have "(2::rat) powi floor_log2 \<bar>?q\<bar> < 2 powi 52"
    by simp
  then have "floor_log2 \<bar>?q\<bar> < 52" by (simp only: two_powi_less_iff)
  then have e: "ulp_exp ?q \<le> - 1" by (simp add: ulp_exp_def)
  define j where "j = nat (- ulp_exp ?q - 1)"
  from e have "- ulp_exp ?q = int j + 1" by (simp add: j_def)
  then have u: "ulp_exp ?q = - (int j + 1)" by simp
  have "(2::rat) powi (- (int j + 1)) = 1 / 2 powi (int j + 1)"
    by (simp only: power_int_minus_divide)
  also have "\<dots> = 1 / 2 powi (int (Suc j))"
    by (simp add: add.commute)
  also have "\<dots> = 1 / (2 * 2 ^ j)"
    by (simp only: power_int_of_nat power_Suc)
  finally have p: "(2::rat) powi ulp_exp ?q = 1 / (2 * 2 ^ j)"
    by (simp only: u)
  have "?q / 2 powi ulp_exp ?q = of_int (k * 2 ^ j)"
    by (simp add: p)
  then have "round_half_even (?q / 2 powi ulp_exp ?q) = k * 2 ^ j"
    by (simp only: round_half_even_of_int)
  then have "round64 ?q = of_int (k * 2 ^ j) * (1 / (2 * 2 ^ j))"
    by (simp only: round64_def p)
  then show ?thesis by simp
qed

lemma fl_half:
  assumes "\<bar>of_int k / 2 :: rat\<bar> < 2 ^ 52"
  shows "fl (of_int k / 2) = Num (of_int k / 2)"
proof -
  have "(2::rat) ^ 52 < 2 ^ 1024" by simp
  with assms have "\<bar>of_int k / 2 :: rat\<bar> < 2 ^ 1024" by linarith
  then have "\<not> 2 ^ 1024 \<le> (of_int k / 2 :: rat)" "\<not> (of_int k / 2 :: rat) \<le> - (2 ^ 1024)"
    by linarith+
  then show ?thesis
    by (simp only: fl_def Let_def round64_half [OF assms] if_False)
qed

lemma js_add_half:
  assumes "(of_nat (a + b) / 2 :: rat) < 2 ^ 52"
  shows "js_add (Num (of_nat a / 2)) (Num (of_nat b / 2)) = Num (of_nat (a + b) / 2)"
proof -
  have "(of_nat a / 2 + of_nat b / 2 :: rat) = of_int (int (a + b)) / 2"
    by (simp add: add_divide_distrib)
  moreover have "\<bar>of_int (int (a + b)) / 2 :: rat\<bar> < 2 ^ 52"
    using assms by simp
  ultimately have "fl (of_nat a / 2 + of_nat b / 2) = Num (of_int (int (a + b)) / 2)"
    using fl_half [of "int (a + b)"] by (simp only:)
  then show ?thesis by simp
qed

lemma round_half_even_nearest: "\<bar>of_int (round_half_even y) - y\<bar> \<le> 1 / 2"
proof -
  have "of_int \<lfloor>y\<rfloor> \<le> y" and "y < of_int \<lfloor>y\<rfloor> + 1" by linarith+
  then show ?thesis by (auto simp: round_half_even_def Let_def)
qed

text \<open>
  \<open>round64\<close> lands on a multiple of the spacing at \<open>q\<close>, at most half a spacing away;
  the spacing is \<open>2 powi (-52)\<close> times the leading bit of \<open>q\<close>, and \<open>2 powi (-1074)\<close>
  at least.
\<close>

lemma round64_nearest: "\<bar>round64 q - q\<bar> \<le> 2 powi ulp_exp q / 2"
proof -
  let ?u = "(2::rat) powi ulp_exp q"
  have u: "0 < ?u" by simp
  have "round64 q - q = (of_int (round_half_even (q / ?u)) - q / ?u) * ?u"
    using u by (simp add: round64_def field_simps)
  then have "\<bar>round64 q - q\<bar> = \<bar>of_int (round_half_even (q / ?u)) - q / ?u\<bar> * ?u"
    using u by (simp add: abs_mult)
  also have "\<dots> \<le> 1 / 2 * ?u"
    using u round_half_even_nearest [of "q / ?u"] by (intro mult_right_mono) simp_all
  finally show ?thesis by simp
qed

subsection \<open>The budget as the page computes it\<close>

lemma finite_on_grid_fl: "finite_on_grid (fl q)"
  by (simp add: fl_def Let_def on_grid_round64)

lemma finite_on_grid_js_add: "finite_on_grid (js_add x y)"
  by (cases x; cases y) (simp_all add: finite_on_grid_fl)

lemma finite_on_grid_foldl:
  "finite_on_grid a \<Longrightarrow> finite_on_grid (foldl (\<lambda>sum p. js_add sum (base_price p)) a ps)"
  by (induction ps arbitrary: a) (simp_all add: finite_on_grid_js_add)

lemma finite_on_grid_totalCredits: "finite_on_grid (totalCredits s)"
proof -
  have "on_grid 0" using on_grid_of_int [of 0] by simp
  then show ?thesis by (simp add: totalCredits_def finite_on_grid_foldl)
qed

lemma credits_left_negative:
  assumes "finite_on_grid t"
  shows "js_lt (js_sub (Num 100) t) (Num 0) \<longleftrightarrow> js_lt (Num 100) t"
proof (cases t)
  case (Num q)
  have "on_grid 100" using on_grid_of_int [of 100] by simp
  with assms Num have "on_grid (100 - q)" by (simp add: on_grid_diff)
  then have r: "round64 (100 - q) < 0 \<longleftrightarrow> 100 < q"
    by (simp add: round64_negative_iff)
  have p: "(0::rat) < 2 ^ 1024" by simp
  show ?thesis
  proof (cases "2 ^ 1024 \<le> round64 (100 - q)")
    case True
    with p have "\<not> round64 (100 - q) < 0" by linarith
    with r True Num show ?thesis by (simp add: fl_def Let_def)
  next
    case False
    note nb = this
    show ?thesis
    proof (cases "round64 (100 - q) \<le> - (2 ^ 1024)")
      case True
      with p have "round64 (100 - q) < 0" by linarith
      with r True nb Num show ?thesis by (simp add: fl_def Let_def)
    next
      case False
      with r nb Num show ?thesis by (simp add: fl_def Let_def)
    qed
  qed
qed simp_all

lemma budget_gate: "js_lt (creditsLeft s) (Num 0) \<longleftrightarrow> js_lt (Num 100) (totalCredits s)"
  unfolding creditsLeft_def by (rule credits_left_negative [OF finite_on_grid_totalCredits])

lemma foldl_half_credits:
  assumes "\<forall>p \<in> set ps. half_credits (base_price p)"
    and "of_nat a / 2 + sum_list (map (\<lambda>p. rat_of (base_price p)) ps) < 2 ^ 52"
  shows "foldl (\<lambda>sum p. js_add sum (base_price p)) (Num (of_nat a / 2)) ps
           = Num (of_nat a / 2 + sum_list (map (\<lambda>p. rat_of (base_price p)) ps))"
  using assms
proof (induction ps arbitrary: a)
  case Nil
  then show ?case by simp
next
  case (Cons p ps)
  from Cons.prems(1) obtain k :: nat where k: "base_price p = Num (of_nat k / 2)"
    by (auto simp: half_credits_def)
  have nonneg: "0 \<le> sum_list (map (\<lambda>p. rat_of (base_price p)) ps)"
  proof (rule sum_list_nonneg)
    fix x assume "x \<in> set (map (\<lambda>p. rat_of (base_price p)) ps)"
    then obtain p' where "p' \<in> set ps" "x = rat_of (base_price p')" by auto
    with Cons.prems(1) show "0 \<le> x" by (auto simp: half_credits_def)
  qed
  have e: "(of_nat (a + k) / 2 :: rat) = of_nat a / 2 + of_nat k / 2"
    by (simp add: add_divide_distrib)
  from Cons.prems(2) k nonneg have small: "(of_nat (a + k) / 2 :: rat) < 2 ^ 52"
    unfolding e by simp
  from Cons.prems(2) k have rest:
    "of_nat (a + k) / 2 + sum_list (map (\<lambda>p. rat_of (base_price p)) ps) < 2 ^ 52"
    unfolding e by simp
  from Cons.prems(1) have all: "\<forall>p \<in> set ps. half_credits (base_price p)" by simp
  have "foldl (\<lambda>sum p. js_add sum (base_price p)) (Num (of_nat a / 2)) (p # ps)
          = foldl (\<lambda>sum p. js_add sum (base_price p)) (Num (of_nat (a + k) / 2)) ps"
    using js_add_half [OF small] by (simp only: foldl.simps k)
  also have "\<dots> = Num (of_nat (a + k) / 2 + sum_list (map (\<lambda>p. rat_of (base_price p)) ps))"
    by (rule Cons.IH [OF all rest])
  finally show ?case by (simp add: k e)
qed

lemma totalCredits_half_credits:
  assumes "\<forall>p \<in> set (selectedPlayers s). half_credits (base_price p)"
    and "exact_total s < 2 ^ 52"
  shows "totalCredits s = Num (exact_total s)"
  using foldl_half_credits [of "selectedPlayers s" 0] assms
  by (simp add: totalCredits_def exact_total_def)

lemma round_half_even_tie:
  assumes "y = of_int m + 1 / 2"
  shows "round_half_even y = (if even m then m else m + 1)"
proof -
  have "of_int m \<le> y" and "y < of_int m + 1" using assms by simp_all
  then have "\<lfloor>y\<rfloor> = m" by (rule floor_unique)
  with assms show ?thesis by (simp add: round_half_even_def Let_def)
qed

lemma fl_cert_tie:
  assumes "- 1074 \<le> e" and "2 powi (e + 52) \<le> \<bar>q\<bar>" and "\<bar>q\<bar> < 2 powi (e + 53)"
    and "q / 2 powi e = of_int m + 1 / 2" and "n = (if even m then m else m + 1)"
    and "\<bar>of_int n * 2 powi e :: rat\<bar> < 2 ^ 1024"
  shows "fl q = Num (of_int n * 2 powi e)"
proof -
  from assms(6)
  have "\<not> (2::rat) ^ 1024 \<le> of_int n * 2 powi e"
    and "\<not> of_int n * 2 powi e \<le> - ((2::rat) ^ 1024)"
    by linarith+
  moreover have "round64 q = of_int n * 2 powi e"
    using round_half_even_tie [OF assms(4)] ulp_exp_cert [OF assms(1-3)] assms(5)
    by (simp only: round64_def)
  ultimately show ?thesis
    by (simp only: fl_def Let_def if_False)
qed

subsection \<open>Sample budgets\<close>

lemma parsed_8: "parsed 8 = Num (8)"
  using fl_cert [of "- 49" "8" "4503599627370496"] by (simp add: parsed_def)

lemma parsed_9_2: "parsed (46 / 5) = Num (2589569785738035 / 281474976710656)"
  using fl_cert [of "- 49" "46 / 5" "5179139571476070"] by (simp add: parsed_def)

lemma tight_add_1: "js_add (Num (0)) (Num (8)) = Num (8)"
  using fl_cert [of "- 49" "0 + 8" "4503599627370496"] by simp

lemma tight_add_2: "js_add (Num (8)) (Num (2589569785738035 / 281474976710656)) = Num (4841369599423283 / 281474976710656)"
  using fl_cert [of "- 48" "8 + 2589569785738035 / 281474976710656" "4841369599423283"] by simp

lemma tight_add_3: "js_add (Num (4841369599423283 / 281474976710656)) (Num (2589569785738035 / 281474976710656)) = Num (3715469692580659 / 140737488355328)"
  using fl_cert [of "- 48" "4841369599423283 / 281474976710656 + 2589569785738035 / 281474976710656" "7430939385161318"] by simp

lemma tight_add_4: "js_add (Num (3715469692580659 / 140737488355328)) (Num (2589569785738035 / 281474976710656)) = Num (1252563646362419 / 35184372088832)"
  using fl_cert_tie [of "- 47" "3715469692580659 / 140737488355328 + 2589569785738035 / 281474976710656" "5010254585449676" "5010254585449676"] by simp

lemma tight_add_5: "js_add (Num (1252563646362419 / 35184372088832)) (Num (2589569785738035 / 281474976710656)) = Num (3152519739159347 / 70368744177664)"
  using fl_cert_tie [of "- 47" "1252563646362419 / 35184372088832 + 2589569785738035 / 281474976710656" "6305039478318693" "6305039478318694"] by simp

lemma tight_add_6: "js_add (Num (3152519739159347 / 70368744177664)) (Num (2589569785738035 / 281474976710656)) = Num (54)"
  using fl_cert_tie [of "- 47" "3152519739159347 / 70368744177664 + 2589569785738035 / 281474976710656" "7599824371187711" "7599824371187712"] by simp

lemma tight_add_7: "js_add (Num (54)) (Num (2589569785738035 / 281474976710656)) = Num (4447304632028365 / 70368744177664)"
  using fl_cert_tie [of "- 47" "54 + 2589569785738035 / 281474976710656" "8894609264056729" "8894609264056730"] by simp

lemma tight_add_8: "js_add (Num (4447304632028365 / 70368744177664)) (Num (2589569785738035 / 281474976710656)) = Num (2547348539231437 / 35184372088832)"
  using fl_cert [of "- 46" "4447304632028365 / 70368744177664 + 2589569785738035 / 281474976710656" "5094697078462874"] by simp

lemma tight_add_9: "js_add (Num (2547348539231437 / 35184372088832)) (Num (2589569785738035 / 281474976710656)) = Num (5742089524897383 / 70368744177664)"
  using fl_cert [of "- 46" "2547348539231437 / 35184372088832 + 2589569785738035 / 281474976710656" "5742089524897383"] by simp

lemma tight_add_10: "js_add (Num (5742089524897383 / 70368744177664)) (Num (2589569785738035 / 281474976710656)) = Num (1597370492832973 / 17592186044416)"
  using fl_cert [of "- 46" "5742089524897383 / 70368744177664 + 2589569785738035 / 281474976710656" "6389481971331892"] by simp

lemma tight_add_11: "js_add (Num (1597370492832973 / 17592186044416)) (Num (2589569785738035 / 281474976710656)) = Num (7036874417766401 / 70368744177664)"
  using fl_cert [of "- 46" "1597370492832973 / 17592186044416 + 2589569785738035 / 281474976710656" "7036874417766401"] by simp

lemma tight_left: "js_sub (Num (100)) (Num (7036874417766401 / 70368744177664)) = Num (- (1 / 70368744177664))"
  using fl_cert [of "- 98" "100 - (7036874417766401 / 70368744177664)" "-4503599627370496"] by simp

lemma foldl_base_price:
  "foldl (\<lambda>sum p. js_add sum (base_price p)) a ps = foldl js_add a (map base_price ps)"
  by (induction ps arbitrary: a) simp_all

lemma tight_prices:
  "map base_price (selectedPlayers tight_page) = parsed 8 # replicate 10 (parsed (46 / 5))"
  by (simp add: tight_page_def page_of_def tight_squad_def priced_def eval_nat_numeral)

lemma tight_total: "totalCredits tight_page = Num (7036874417766401 / 70368744177664)"
proof -
  have "totalCredits tight_page = foldl js_add (Num 0) (parsed 8 # replicate 10 (parsed (46 / 5)))"
    by (simp only: totalCredits_def foldl_base_price tight_prices)
  also have "replicate 10 (parsed (46 / 5)) =
      [Num (2589569785738035 / 281474976710656), Num (2589569785738035 / 281474976710656), Num (2589569785738035 / 281474976710656), Num (2589569785738035 / 281474976710656), Num (2589569785738035 / 281474976710656),
       Num (2589569785738035 / 281474976710656), Num (2589569785738035 / 281474976710656), Num (2589569785738035 / 281474976710656), Num (2589569785738035 / 281474976710656), Num (2589569785738035 / 281474976710656)]"
    by (simp add: eval_nat_numeral parsed_9_2)
  finally show ?thesis
    by (simp only: parsed_8 foldl.simps tight_add_1 tight_add_2 tight_add_3 tight_add_4 tight_add_5 tight_add_6 tight_add_7 tight_add_8 tight_add_9 tight_add_10 tight_add_11)
qed

lemma tight_credits_left: "creditsLeft tight_page = Num (- (1 / 70368744177664))"
  by (simp only: creditsLeft_def tight_total tight_left)

lemma parsed_10_01: "parsed (1001 / 100) = Num (5635129033747333 / 562949953421312)"
  using fl_cert [of "- 49" "1001 / 100" "5635129033747333"] by (simp add: parsed_def)

lemma nines_add_1: "js_add (Num (0)) (Num (9)) = Num (9)"
  using fl_cert [of "- 49" "0 + 9" "5066549580791808"] by simp

lemma nines_add_2: "js_add (Num (9)) (Num (9)) = Num (18)"
  using fl_cert [of "- 48" "9 + 9" "5066549580791808"] by simp

lemma nines_add_3: "js_add (Num (18)) (Num (9)) = Num (27)"
  using fl_cert [of "- 48" "18 + 9" "7599824371187712"] by simp

lemma nines_add_4: "js_add (Num (27)) (Num (9)) = Num (36)"
  using fl_cert [of "- 47" "27 + 9" "5066549580791808"] by simp

lemma nines_add_5: "js_add (Num (36)) (Num (9)) = Num (45)"
  using fl_cert [of "- 47" "36 + 9" "6333186975989760"] by simp

lemma nines_add_6: "js_add (Num (45)) (Num (9)) = Num (54)"
  using fl_cert [of "- 47" "45 + 9" "7599824371187712"] by simp

lemma nines_add_7: "js_add (Num (54)) (Num (9)) = Num (63)"
  using fl_cert [of "- 47" "54 + 9" "8866461766385664"] by simp

lemma nines_add_8: "js_add (Num (63)) (Num (9)) = Num (72)"
  using fl_cert [of "- 46" "63 + 9" "5066549580791808"] by simp

lemma nines_add_9: "js_add (Num (72)) (Num (9)) = Num (81)"
  using fl_cert [of "- 46" "72 + 9" "5699868278390784"] by simp

lemma nines_add_10: "js_add (Num (81)) (Num (9)) = Num (90)"
  using fl_cert [of "- 46" "81 + 9" "6333186975989760"] by simp

lemma nines_add_10_01: "js_add (Num (90)) (Num (5635129033747333 / 562949953421312)) = Num (7037578105208177 / 70368744177664)"
  using fl_cert [of "- 46" "90 + 5635129033747333 / 562949953421312" "7037578105208177"] by simp

lemma nines_prices:
  "map base_price (selectedPlayers (nines_page x)) =
     [Num 9, Num 9, Num 9, Num 9, Num 9, Num 9, Num 9, Num 9, Num 9, Num 9, x]"
  by (simp add: nines_page_def page_of_def nines_and_def priced_def)

lemma nines_total_10_01:
  "totalCredits (nines_page (parsed (1001 / 100))) = Num (7037578105208177 / 70368744177664)"
  by (simp only: totalCredits_def foldl_base_price nines_prices parsed_10_01 foldl.simps
      nines_add_1 nines_add_2 nines_add_3 nines_add_4 nines_add_5 nines_add_6 nines_add_7 nines_add_8 nines_add_9 nines_add_10 nines_add_10_01)

lemma tight_exact_total: "exact_total tight_page = 14073748835532799 / 140737488355328"
proof -
  have "exact_total tight_page = sum_list (map rat_of (map base_price (selectedPlayers tight_page)))"
    by (simp add: exact_total_def comp_def)
  then show ?thesis
    by (simp add: tight_prices parsed_8 parsed_9_2 eval_nat_numeral)
qed

subsection \<open>Checks of the page before it submits\<close>

text \<open>
  C4. When the number of selected players is not 11, \<open>handleSubmit\<close> shows the error
  "Select exactly 11 players", sends no request (neither team creation nor contest join)
  and leaves the server state as it was, whatever the server is.
\<close>

theorem wrong_size_rejected_before_any_request:
  assumes "length (selectedPlayers s) \<noteq> 11"
  shows "handleSubmit api matchId contestId s st =
           \<lparr>shown = error_toast ''Select exactly 11 players'', navigated = None, sent = [],
            server = st\<rparr>"
  using assms by (simp add: handleSubmit_def)

theorem wrong_size_rejected_before_any_request_witness:
  "length (selectedPlayers (page_of (tl squad) (Some (pl ''p02'' 9)) (Some (pl ''p03'' 9)))) = 10
   \<and> handleSubmit (storing_api True True) ''m1'' ''c1''
        (page_of (tl squad) (Some (pl ''p02'' 9)) (Some (pl ''p03'' 9))) empty_store =
        \<lparr>shown = error_toast ''Select exactly 11 players'', navigated = None, sent = [],
         server = empty_store\<rparr>"
proof -
  have l: "length (selectedPlayers (page_of (tl squad) (Some (pl ''p02'' 9)) (Some (pl ''p03'' 9)))) = 10"
    by (simp add: sample_defs)
  then have "length (selectedPlayers (page_of (tl squad) (Some (pl ''p02'' 9)) (Some (pl ''p03'' 9)))) \<noteq> 11"
    by simp
  from wrong_size_rejected_before_any_request [OF this] l show ?thesis by simp
qed

lemma missing_designation_rejected:
  assumes "length (selectedPlayers s) = 11" and "captain s = None \<or> viceCaptain s = None"
  shows "handleSubmit api matchId contestId s st =
           \<lparr>shown = error_toast ''Select captain and vice-captain'', navigated = None, sent = [],
            server = st\<rparr>"
  using assms by (auto simp: handleSubmit_def)

lemma designated_team_is_sent:
  assumes "length (selectedPlayers s) = 11" and "captain s \<noteq> None" and "viceCaptain s \<noteq> None"
  shows "\<exists>rest. sent (handleSubmit api matchId contestId s st) = PostTeams (payload_of matchId s) # rest"
  using assms by (auto simp: handleSubmit_def Let_def split: prod.splits sum.splits)

lemma payload_marks_both:
  assumes "captain s = Some c" and "viceCaptain s = Some c" and "isSelected c s"
  shows "list_ex (\<lambda>e. player_id e = pid c \<and> is_captain e \<and> is_vice_captain e)
           (payload_players (payload_of matchId s))"
proof -
  from assms(3) obtain p where "p \<in> set (selectedPlayers s)" and "pid p = pid c"
    by (auto simp: isSelected_iff)
  with assms(1,2) show ?thesis
    by (auto simp: payload_of_def list_ex_iff holds_id_def intro!: bexI [of _ p])
qed

text \<open>
  C2, the claim as stated fails: eleven players selected, \<open>p01\<close> both captain and
  vice-captain. The page does not reject: the team goes out in a team-creation request,
  \<open>p01\<close> flagged as captain and as vice-captain.
\<close>

theorem same_captain_and_vice_is_sent:
  "length (selectedPlayers (page_of squad (Some (pl ''p01'' 9)) (Some (pl ''p01'' 9)))) = 11
   \<and> captain (page_of squad (Some (pl ''p01'' 9)) (Some (pl ''p01'' 9))) = Some (pl ''p01'' 9)
   \<and> viceCaptain (page_of squad (Some (pl ''p01'' 9)) (Some (pl ''p01'' 9)))
       = Some (pl ''p01'' 9)
   \<and> sent (handleSubmit (storing_api True True) ''m1'' ''c1''
        (page_of squad (Some (pl ''p01'' 9)) (Some (pl ''p01'' 9))) empty_store)
       = [PostTeams (payload_of ''m1'' (page_of squad (Some (pl ''p01'' 9)) (Some (pl ''p01'' 9)))),
          PostJoin ''c1'' \<lparr>contest_id = ''c1'', team_id = 0\<rparr>]
   \<and> hd (payload_players (payload_of ''m1'' (page_of squad (Some (pl ''p01'' 9)) (Some (pl ''p01'' 9)))))
       = \<lparr>player_id = ''p01'', is_captain = True, is_vice_captain = True\<rparr>"
  by (simp add: sample_defs submit_defs)

text \<open>
  C2, amended. For a team of exactly 11 selected players the page rejects, sending
  nothing, exactly when the captain or the vice-captain is not designated, with the
  reason "Select captain and vice-captain". When both are designated the team is sent for
  creation, also when they are the same player, who is then flagged both captain and
  vice-captain in the request.
\<close>

theorem eleven_rejected_only_without_designation:
  assumes "length (selectedPlayers s) = 11"
  shows "(captain s = None \<or> viceCaptain s = None \<longrightarrow>
            handleSubmit api matchId contestId s st =
              \<lparr>shown = error_toast ''Select captain and vice-captain'', navigated = None,
               sent = [], server = st\<rparr>)
       \<and> (captain s \<noteq> None \<and> viceCaptain s \<noteq> None \<longrightarrow>
            (\<exists>rest. sent (handleSubmit api matchId contestId s st)
                      = PostTeams (payload_of matchId s) # rest))
       \<and> (captain s = Some c \<and> viceCaptain s = Some c \<and> isSelected c s \<longrightarrow>
            list_ex (\<lambda>e. player_id e = pid c \<and> is_captain e \<and> is_vice_captain e)
              (payload_players (payload_of matchId s)))"
proof (intro conjI impI)
  assume "captain s = None \<or> viceCaptain s = None"
  then show "handleSubmit api matchId contestId s st =
      \<lparr>shown = error_toast ''Select captain and vice-captain'', navigated = None,
       sent = [], server = st\<rparr>"
    by (rule missing_designation_rejected [OF assms])
next
  assume "captain s \<noteq> None \<and> viceCaptain s \<noteq> None"
  then show "\<exists>rest. sent (handleSubmit api matchId contestId s st)
      = PostTeams (payload_of matchId s) # rest"
    using designated_team_is_sent [OF assms, of api matchId contestId st] by simp
next
  assume "captain s = Some c \<and> viceCaptain s = Some c \<and> isSelected c s"
  then show "list_ex (\<lambda>e. player_id e = pid c \<and> is_captain e \<and> is_vice_captain e)
      (payload_players (payload_of matchId s))"
    using payload_marks_both [of s c matchId] by simp
qed

theorem eleven_rejected_only_without_designation_witness:
  "length (selectedPlayers (page_of squad (Some (pl ''p01'' 9)) (Some (pl ''p01'' 9)))) = 11
   \<and> (\<exists>rest. sent (handleSubmit (storing_api True True) ''m1'' ''c1''
          (page_of squad (Some (pl ''p01'' 9)) (Some (pl ''p01'' 9))) empty_store)
        = PostTeams (payload_of ''m1'' (page_of squad (Some (pl ''p01'' 9)) (Some (pl ''p01'' 9)))) # rest)
   \<and> list_ex (\<lambda>e. player_id e = ''p01'' \<and> is_captain e \<and> is_vice_captain e)
        (payload_players (payload_of ''m1'' (page_of squad (Some (pl ''p01'' 9)) (Some (pl ''p01'' 9)))))
   \<and> length (selectedPlayers (page_of squad None (Some (pl ''p01'' 9)))) = 11
   \<and> sent (handleSubmit (storing_api True True) ''m1'' ''c1''
        (page_of squad None (Some (pl ''p01'' 9))) empty_store) = []"
proof -
  let ?s = "page_of squad (Some (pl ''p01'' 9)) (Some (pl ''p01'' 9))"
  let ?n = "page_of squad None (Some (pl ''p01'' 9))"
  have l: "length (selectedPlayers ?s) = 11" and l': "length (selectedPlayers ?n) = 11"
    by (simp_all add: sample_defs)
  have c: "captain ?s = Some (pl ''p01'' 9)" "viceCaptain ?s = Some (pl ''p01'' 9)"
    "captain ?n = None"
    by (simp_all add: sample_defs)
  have i: "isSelected (pl ''p01'' 9) ?s"
    by (simp add: isSelected_def sample_defs)
  have p: "pid (pl ''p01'' 9) = ''p01''"
    by (simp add: pl_def)
  from eleven_rejected_only_without_designation
      [OF l, where c = "pl ''p01'' 9" and api = "storing_api True True" and matchId = "''m1''"
        and contestId = "''c1''" and st = "empty_store"]
    eleven_rejected_only_without_designation
      [OF l', where c = "pl ''p01'' 9" and api = "storing_api True True" and matchId = "''m1''"
        and contestId = "''c1''" and st = "empty_store"]
    l l' c i p
  show ?thesis by simp
qed

subsection \<open>What a submission depends on\<close>

lemma holds_id_with_price:
  "holds_id (map_option (\<lambda>p. p\<lparr>base_price := f p\<rparr>) d) (p\<lparr>base_price := f p\<rparr>) = holds_id d p"
  by (cases d) (simp_all add: holds_id_def)

lemma payload_of_with_prices: "payload_of matchId (with_prices f s) = payload_of matchId s"
  by (simp add: payload_of_def with_prices_def comp_def holds_id_with_price)

lemma handleSubmit_ignores_prices:
  "handleSubmit api matchId contestId (with_prices f s) st = handleSubmit api matchId contestId s st"
proof -
  have "length (selectedPlayers (with_prices f s)) = length (selectedPlayers s)"
    and "captain (with_prices f s) = None \<longleftrightarrow> captain s = None"
    and "viceCaptain (with_prices f s) = None \<longleftrightarrow> viceCaptain s = None"
    by (simp_all add: with_prices_def)
  then show ?thesis
    by (simp add: handleSubmit_def payload_of_with_prices)
qed

lemma half_credits_whole: "half_credits (Num (of_nat k))"
proof -
  have "(of_nat k :: rat) = of_nat (2 * k) / 2" by simp
  then show ?thesis unfolding half_credits_def by blast
qed

lemma dear_prices:
  "map base_price (selectedPlayers dear_page) =
     [Num 10, Num 10, Num 10, Num 10, Num 10, Num 10, Num 10, Num 10, Num 10, Num 10, Num 10]"
  by (simp add: dear_page_def dear_squad_def sample_defs)

lemma dear_exact_total: "exact_total dear_page = 110"
proof -
  have "exact_total dear_page = sum_list (map rat_of (map base_price (selectedPlayers dear_page)))"
    by (simp add: exact_total_def comp_def)
  then show ?thesis by (simp add: dear_prices)
qed

lemma dear_total: "totalCredits dear_page = Num 110"
proof -
  have "half_credits (Num 10)" using half_credits_whole [of 10] by simp
  then have "\<forall>p \<in> set (selectedPlayers dear_page). half_credits (base_price p)"
    by (simp add: dear_page_def dear_squad_def sample_defs)
  moreover have "exact_total dear_page < 2 ^ 52" by (simp add: dear_exact_total)
  ultimately show ?thesis using totalCredits_half_credits [of dear_page]
    by (simp add: dear_exact_total)
qed

subsection \<open>Order of the checks\<close>

text \<open>
  C5, the claim as stated fails: eleven players at 10 credits each, captain and
  vice-captain designated, 110 credits in all. The budget is the only check that fails,
  and no reason is shown for it: the credits left are negative, which disables the
  submit button, and \<open>handleSubmit\<close> itself sends the team, here to a server that keeps
  it, and shows the success message.
\<close>

theorem over_budget_team_is_sent_without_a_reason:
  "length (selectedPlayers dear_page) = 11
   \<and> captain dear_page \<noteq> None \<and> viceCaptain dear_page \<noteq> None
   \<and> exact_total dear_page = 110
   \<and> totalCredits dear_page = Num 110
   \<and> js_lt (creditsLeft dear_page) (Num 0)
   \<and> submit_disabled dear_page
   \<and> handleSubmit (storing_api True True) ''m1'' ''c1'' dear_page empty_store =
       \<lparr>shown = \<lparr>title = ''Success'', description = ''Team created and contest joined!'',
                 variant = None\<rparr>,
        navigated = Some ''/my-contests'',
        sent = [PostTeams (payload_of ''m1'' dear_page),
                PostJoin ''c1'' \<lparr>contest_id = ''c1'', team_id = 0\<rparr>],
        server = \<lparr>kept_teams = [payload_of ''m1'' dear_page],
                  kept_joins = [\<lparr>contest_id = ''c1'', team_id = 0\<rparr>]\<rparr>\<rparr>"
proof -
  have l: "length (selectedPlayers dear_page) = 11"
    and c: "captain dear_page \<noteq> None" and v: "viceCaptain dear_page \<noteq> None"
    by (simp_all add: dear_page_def dear_squad_def sample_defs)
  have b: "js_lt (creditsLeft dear_page) (Num 0)"
    by (simp add: budget_gate dear_total)
  then have d: "submit_disabled dear_page"
    by (simp add: submit_disabled_def)
  have h: "handleSubmit (storing_api True True) ''m1'' ''c1'' dear_page empty_store =
       \<lparr>shown = \<lparr>title = ''Success'', description = ''Team created and contest joined!'',
                 variant = None\<rparr>,
        navigated = Some ''/my-contests'',
        sent = [PostTeams (payload_of ''m1'' dear_page),
                PostJoin ''c1'' \<lparr>contest_id = ''c1'', team_id = 0\<rparr>],
        server = \<lparr>kept_teams = [payload_of ''m1'' dear_page],
                  kept_joins = [\<lparr>contest_id = ''c1'', team_id = 0\<rparr>]\<rparr>\<rparr>"
    using l c v by (simp add: handleSubmit_def storing_api_def empty_store_def success_toast_def Let_def)
  from l c v b d h show ?thesis
    by (simp add: dear_exact_total dear_total)
qed

text \<open>
  C5, amended. The page applies two checks, in this order: exactly 11 players, then
  captain and vice-captain both designated. For the first one that fails
  \<open>handleSubmit\<close> shows the reason ("Select exactly 11 players", "Select captain and
  vice-captain") and sends nothing; a selection failing both gets the size reason. A
  team that passes both is sent for creation whatever its prices: \<open>handleSubmit\<close> does
  the same for any prices, so it checks no budget and has no reason for one. The budget
  only enters the \<open>disabled\<close> attribute of the submit button, next to the same two
  conditions.
\<close>

theorem submit_checks_size_then_designation_only:
  "(length (selectedPlayers s) \<noteq> 11 \<longrightarrow>
      handleSubmit api matchId contestId s st =
        \<lparr>shown = \<lparr>title = ''Error'', description = ''Select exactly 11 players'',
                  variant = Some ''destructive''\<rparr>,
         navigated = None, sent = [], server = st\<rparr>)
   \<and> (length (selectedPlayers s) = 11 \<and> (captain s = None \<or> viceCaptain s = None) \<longrightarrow>
      handleSubmit api matchId contestId s st =
        \<lparr>shown = \<lparr>title = ''Error'', description = ''Select captain and vice-captain'',
                  variant = Some ''destructive''\<rparr>,
         navigated = None, sent = [], server = st\<rparr>)
   \<and> (length (selectedPlayers s) = 11 \<and> captain s \<noteq> None \<and> viceCaptain s \<noteq> None \<longrightarrow>
      (\<exists>rest. sent (handleSubmit api matchId contestId s st)
                = PostTeams (payload_of matchId s) # rest))
   \<and> handleSubmit api matchId contestId (with_prices f s) st
       = handleSubmit api matchId contestId s st
   \<and> (submit_disabled s \<longleftrightarrow>
        length (selectedPlayers s) \<noteq> 11 \<or> captain s = None \<or> viceCaptain s = None
        \<or> js_lt (Num 100) (totalCredits s))"
proof (intro conjI impI)
  assume "length (selectedPlayers s) \<noteq> 11"
  then show "handleSubmit api matchId contestId s st =
        \<lparr>shown = \<lparr>title = ''Error'', description = ''Select exactly 11 players'',
                  variant = Some ''destructive''\<rparr>,
         navigated = None, sent = [], server = st\<rparr>"
    by (simp add: handleSubmit_def error_toast_def)
next
  assume "length (selectedPlayers s) = 11 \<and> (captain s = None \<or> viceCaptain s = None)"
  then show "handleSubmit api matchId contestId s st =
        \<lparr>shown = \<lparr>title = ''Error'', description = ''Select captain and vice-captain'',
                  variant = Some ''destructive''\<rparr>,
         navigated = None, sent = [], server = st\<rparr>"
    using missing_designation_rejected [of s api matchId contestId st]
    by (simp add: error_toast_def)
next
  assume "length (selectedPlayers s) = 11 \<and> captain s \<noteq> None \<and> viceCaptain s \<noteq> None"
  then show "\<exists>rest. sent (handleSubmit api matchId contestId s st)
                = PostTeams (payload_of matchId s) # rest"
    using designated_team_is_sent [of s api matchId contestId st] by simp
next
  show "handleSubmit api matchId contestId (with_prices f s) st
       = handleSubmit api matchId contestId s st"
    by (rule handleSubmit_ignores_prices)
next
  show "submit_disabled s \<longleftrightarrow>
        length (selectedPlayers s) \<noteq> 11 \<or> captain s = None \<or> viceCaptain s = None
        \<or> js_lt (Num 100) (totalCredits s)"
    by (simp add: submit_disabled_def budget_gate)
qed

theorem submit_checks_size_then_designation_only_witness:
  "length (selectedPlayers (page_of (tl squad) None None)) \<noteq> 11
   \<and> handleSubmit (storing_api True True) ''m1'' ''c1'' (page_of (tl squad) None None) empty_store =
        \<lparr>shown = \<lparr>title = ''Error'', description = ''Select exactly 11 players'',
                  variant = Some ''destructive''\<rparr>,
         navigated = None, sent = [], server = empty_store\<rparr>
   \<and> handleSubmit (storing_api True True) ''m1'' ''c1'' (page_of dear_squad None None) empty_store =
        \<lparr>shown = \<lparr>title = ''Error'', description = ''Select captain and vice-captain'',
                  variant = Some ''destructive''\<rparr>,
         navigated = None, sent = [], server = empty_store\<rparr>
   \<and> (\<exists>rest. sent (handleSubmit (storing_api True True) ''m1'' ''c1'' dear_page empty_store)
               = PostTeams (payload_of ''m1'' dear_page) # rest)
   \<and> handleSubmit (storing_api True True) ''m1'' ''c1''
        (with_prices (\<lambda>p. Num 9) dear_page) empty_store
       = handleSubmit (storing_api True True) ''m1'' ''c1'' dear_page empty_store
   \<and> js_lt (Num 100) (totalCredits dear_page)
   \<and> submit_disabled dear_page"
proof -
  note checks = submit_checks_size_then_designation_only
  have a: "length (selectedPlayers (page_of (tl squad) None None)) \<noteq> 11"
    by (simp add: sample_defs)
  have b: "length (selectedPlayers (page_of dear_squad None None)) = 11
           \<and> (captain (page_of dear_squad None None) = None
              \<or> viceCaptain (page_of dear_squad None None) = None)"
    by (simp add: dear_squad_def sample_defs)
  have c: "length (selectedPlayers dear_page) = 11 \<and> captain dear_page \<noteq> None
           \<and> viceCaptain dear_page \<noteq> None"
    by (simp add: dear_page_def dear_squad_def sample_defs)
  have d: "js_lt (Num 100) (totalCredits dear_page)"
    by (simp add: dear_total)
  from checks [where s = "page_of (tl squad) None None" and api = "storing_api True True"
      and matchId = "''m1''" and contestId = "''c1''" and st = empty_store] a
  have w1: "handleSubmit (storing_api True True) ''m1'' ''c1'' (page_of (tl squad) None None) empty_store =
        \<lparr>shown = \<lparr>title = ''Error'', description = ''Select exactly 11 players'',
                  variant = Some ''destructive''\<rparr>,
         navigated = None, sent = [], server = empty_store\<rparr>"
    by blast
  from checks [where s = "page_of dear_squad None None" and api = "storing_api True True"
      and matchId = "''m1''" and contestId = "''c1''" and st = empty_store] b
  have w2: "handleSubmit (storing_api True True) ''m1'' ''c1'' (page_of dear_squad None None) empty_store =
        \<lparr>shown = \<lparr>title = ''Error'', description = ''Select captain and vice-captain'',
                  variant = Some ''destructive''\<rparr>,
         navigated = None, sent = [], server = empty_store\<rparr>"
    by blast
  from checks [where s = dear_page and api = "storing_api True True" and f = "\<lambda>p. Num 9"
      and matchId = "''m1''" and contestId = "''c1''" and st = empty_store] c d
  have w3: "\<exists>rest. sent (handleSubmit (storing_api True True) ''m1'' ''c1'' dear_page empty_store)
               = PostTeams (payload_of ''m1'' dear_page) # rest"
    and w4: "handleSubmit (storing_api True True) ''m1'' ''c1''
        (with_prices (\<lambda>p. Num 9) dear_page) empty_store
       = handleSubmit (storing_api True True) ''m1'' ''c1'' dear_page empty_store"
    and w5: "submit_disabled dear_page"
    by blast+
  from a w1 w2 w3 w4 w5 d show ?thesis by blast
qed

subsection \<open>The two requests of a submission\<close>










subsection \<open>Acceptance with respect to the budget\<close>

text \<open>
  C3, the claim as stated fails: one player at 8.0 credits and ten at 9.2, which is
  100.0 credits in decimals, and not more than 100 either when each price is taken as the
  binary64 number it is stored as. The page adds them up to 100.00000000000001, finds
  the credits left negative and disables the submit button.
\<close>

theorem decimal_hundred_rejected_in_floating_point:
  "length (selectedPlayers tight_page) = 11
   \<and> map base_price (selectedPlayers tight_page) = parsed 8 # replicate 10 (parsed (46 / 5))
   \<and> (8 + 10 * (46 / 5) :: rat) = 100
   \<and> exact_total tight_page \<le> 100
   \<and> captain tight_page \<noteq> None \<and> viceCaptain tight_page \<noteq> None
   \<and> totalCredits tight_page = Num (100 + 1 / 2 ^ 46)
   \<and> js_lt (creditsLeft tight_page) (Num 0)
   \<and> submit_disabled tight_page"
proof -
  have "length (selectedPlayers tight_page) = 11"
    and "captain tight_page \<noteq> None" and "viceCaptain tight_page \<noteq> None"
    by (simp_all add: tight_page_def page_of_def tight_squad_def)
  moreover have "exact_total tight_page \<le> 100"
    by (simp add: tight_exact_total)
  moreover have "totalCredits tight_page = Num (100 + 1 / 2 ^ 46)"
    by (simp add: tight_total)
  moreover have "js_lt (creditsLeft tight_page) (Num 0)"
    by (simp add: tight_credits_left)
  ultimately show ?thesis
    by (simp add: submit_disabled_def tight_prices)
qed

text \<open>
  C3, amended. The page accepts a team with respect to budget exactly when the
  binary64 sum of the base prices, added from left to right starting at 0, is not greater
  than 100: the credits left, 100 minus that sum, are negative exactly then, and with
  11 players and both designations made nothing else disables the submit button. When
  every price is a whole number of half credits and the exact sum is below \<open>2 ^ 52\<close>,
  the sum is the exact one, and then a team is accepted exactly when its exact sum is at
  most 100. For other prices the sum is rounded at each step and can pass 100 when the
  exact sum does not. The budget is checked nowhere else: \<open>handleSubmit\<close> does the same
  for any prices, and sends every team of 11 with both designations made.
\<close>

theorem budget_accepted_iff_floating_sum_at_most_100:
  "(js_lt (creditsLeft s) (Num 0) \<longleftrightarrow> js_lt (Num 100) (totalCredits s))
   \<and> (length (selectedPlayers s) = 11 \<and> captain s \<noteq> None \<and> viceCaptain s \<noteq> None \<longrightarrow>
        (submit_disabled s \<longleftrightarrow> js_lt (Num 100) (totalCredits s)))
   \<and> ((\<forall>p \<in> set (selectedPlayers s). half_credits (base_price p)) \<and> exact_total s < 2 ^ 52 \<longrightarrow>
        totalCredits s = Num (exact_total s)
        \<and> (js_lt (creditsLeft s) (Num 0) \<longleftrightarrow> 100 < exact_total s))
   \<and> handleSubmit api matchId contestId (with_prices f s) st
       = handleSubmit api matchId contestId s st
   \<and> (length (selectedPlayers s) = 11 \<and> captain s \<noteq> None \<and> viceCaptain s \<noteq> None \<longrightarrow>
        (\<exists>rest. sent (handleSubmit api matchId contestId s st)
                  = PostTeams (payload_of matchId s) # rest))"
proof (intro conjI impI)
  show g: "js_lt (creditsLeft s) (Num 0) \<longleftrightarrow> js_lt (Num 100) (totalCredits s)"
    by (rule budget_gate)
  {
    assume "length (selectedPlayers s) = 11 \<and> captain s \<noteq> None \<and> viceCaptain s \<noteq> None"
    then show "submit_disabled s \<longleftrightarrow> js_lt (Num 100) (totalCredits s)"
      by (auto simp: submit_disabled_def g)
  }
  {
    assume h: "(\<forall>p \<in> set (selectedPlayers s). half_credits (base_price p)) \<and> exact_total s < 2 ^ 52"
    then show t: "totalCredits s = Num (exact_total s)"
      by (simp add: totalCredits_half_credits)
    show "js_lt (creditsLeft s) (Num 0) \<longleftrightarrow> 100 < exact_total s"
      by (simp add: g t)
  }
  show "handleSubmit api matchId contestId (with_prices f s) st
       = handleSubmit api matchId contestId s st"
    by (rule handleSubmit_ignores_prices)
  {
    assume "length (selectedPlayers s) = 11 \<and> captain s \<noteq> None \<and> viceCaptain s \<noteq> None"
    then show "\<exists>rest. sent (handleSubmit api matchId contestId s st)
                  = PostTeams (payload_of matchId s) # rest"
      using designated_team_is_sent [of s api matchId contestId st] by simp
  }
qed

lemma nines_exact_total: "exact_total (nines_page (Num x)) = 90 + x"
proof -
  have "exact_total (nines_page (Num x))
          = sum_list (map rat_of (map base_price (selectedPlayers (nines_page (Num x)))))"
    by (simp add: exact_total_def comp_def)
  then show ?thesis by (simp add: nines_prices)
qed

theorem budget_accepted_iff_floating_sum_at_most_100_witness:
  "length (selectedPlayers (nines_page (Num 10))) = 11
   \<and> exact_total (nines_page (Num 10)) = 100
   \<and> totalCredits (nines_page (Num 10)) = Num 100
   \<and> \<not> submit_disabled (nines_page (Num 10))
   \<and> exact_total (nines_page (Num 11)) = 101
   \<and> submit_disabled (nines_page (Num 11))
   \<and> totalCredits (nines_page (parsed (1001 / 100))) = Num (7037578105208177 / 70368744177664)
   \<and> submit_disabled (nines_page (parsed (1001 / 100)))
   \<and> (\<exists>rest. sent (handleSubmit (storing_api True True) ''m1'' ''c1'' (nines_page (Num 11))
          empty_store) = PostTeams (payload_of ''m1'' (nines_page (Num 11))) # rest)
   \<and> handleSubmit (storing_api True True) ''m1'' ''c1''
        (with_prices (\<lambda>p. Num 9) (nines_page (Num 11))) empty_store
       = handleSubmit (storing_api True True) ''m1'' ''c1'' (nines_page (Num 11)) empty_store"
proof -
  have l: "length (selectedPlayers (nines_page x)) = 11
           \<and> captain (nines_page x) \<noteq> None \<and> viceCaptain (nines_page x) \<noteq> None" for x
    by (simp add: nines_page_def page_of_def nines_and_def)
  have nine: "half_credits (Num 9)" and ten: "half_credits (Num 10)"
    and eleven: "half_credits (Num 11)"
    using half_credits_whole [of 9] half_credits_whole [of 10] half_credits_whole [of 11]
    by simp_all
  have h10: "(\<forall>p \<in> set (selectedPlayers (nines_page (Num 10))). half_credits (base_price p))
             \<and> exact_total (nines_page (Num 10)) < 2 ^ 52"
    using nine ten by (simp add: nines_exact_total) (simp add: nines_page_def page_of_def nines_and_def priced_def)
  have h11: "(\<forall>p \<in> set (selectedPlayers (nines_page (Num 11))). half_credits (base_price p))
             \<and> exact_total (nines_page (Num 11)) < 2 ^ 52"
    using nine eleven by (simp add: nines_exact_total) (simp add: nines_page_def page_of_def nines_and_def priced_def)
  note budget = budget_accepted_iff_floating_sum_at_most_100
  from budget [where s = "nines_page (Num 10)" and api = "storing_api True True"] l [of "Num 10"] h10
  have a: "totalCredits (nines_page (Num 10)) = Num 100 \<and> \<not> submit_disabled (nines_page (Num 10))"
    by (simp add: nines_exact_total)
  from budget [where s = "nines_page (Num 11)" and api = "storing_api True True"
      and matchId = "''m1''" and contestId = "''c1''" and st = empty_store and f = "\<lambda>p. Num 9"]
    l [of "Num 11"] h11
  have b: "submit_disabled (nines_page (Num 11))"
    and d: "\<exists>rest. sent (handleSubmit (storing_api True True) ''m1'' ''c1'' (nines_page (Num 11))
          empty_store) = PostTeams (payload_of ''m1'' (nines_page (Num 11))) # rest"
    and e: "handleSubmit (storing_api True True) ''m1'' ''c1''
        (with_prices (\<lambda>p. Num 9) (nines_page (Num 11))) empty_store
       = handleSubmit (storing_api True True) ''m1'' ''c1'' (nines_page (Num 11)) empty_store"
    by (simp_all add: nines_exact_total)
  from budget [where s = "nines_page (parsed (1001 / 100))" and api = "storing_api True True"]
    l [of "parsed (1001 / 100)"]
  have c: "submit_disabled (nines_page (parsed (1001 / 100)))"
    by (simp add: nines_total_10_01)
  from a b c d e l [of "Num 10"] show ?thesis
    by (simp add: nines_exact_total nines_total_10_01)
qed

subsection \<open>Whole numbers as JavaScript numbers\<close>

lemma round64_whole:
  assumes "\<bar>of_int k :: rat\<bar> < 2 ^ 53"
  shows "round64 (of_int k) = of_int k"
proof (cases "k = 0")
  case True
  then show ?thesis by simp
next
  case False
  let ?q = "of_int k :: rat"
  from False have pos: "0 < \<bar>?q\<bar>" by simp
  from floor_log2_lower [OF pos] assms have "(2::rat) powi floor_log2 \<bar>?q\<bar> < 2 powi 53"
    by simp
  then have "floor_log2 \<bar>?q\<bar> < 53" by (simp only: two_powi_less_iff)
  then have e: "ulp_exp ?q \<le> 0" by (simp add: ulp_exp_def)
  define j where "j = nat (- ulp_exp ?q)"
  from e have u: "ulp_exp ?q = - int j" by (simp add: j_def)
  have "(2::rat) powi (- int j) = 1 / 2 powi (int j)"
    by (simp only: power_int_minus_divide)
  also have "\<dots> = 1 / 2 ^ j"
    by (simp only: power_int_of_nat)
  finally have p: "(2::rat) powi ulp_exp ?q = 1 / 2 ^ j"
    by (simp only: u)
  have "?q / 2 powi ulp_exp ?q = of_int (k * 2 ^ j)"
    by (simp add: p)
  then have "round_half_even (?q / 2 powi ulp_exp ?q) = k * 2 ^ j"
    by (simp only: round_half_even_of_int)
  then have "round64 ?q = of_int (k * 2 ^ j) * (1 / 2 ^ j)"
    by (simp only: round64_def p)
  then show ?thesis by simp
qed

lemma fl_whole:
  assumes "\<bar>of_int k :: rat\<bar> < 2 ^ 53"
  shows "fl (of_int k) = Num (of_int k)"
proof -
  have "(2::rat) ^ 53 < 2 ^ 1024" by simp
  with assms have "\<bar>of_int k :: rat\<bar> < 2 ^ 1024" by linarith
  then have "\<not> 2 ^ 1024 \<le> (of_int k :: rat)" "\<not> (of_int k :: rat) \<le> - (2 ^ 1024)"
    by linarith+
  then show ?thesis
    by (simp only: fl_def Let_def round64_whole [OF assms] if_False)
qed

lemma parsed_count:
  assumes "n < 2 ^ 53"
  shows "parsed (of_nat n) = Num (of_nat n)"
proof -
  from assms have "(of_nat n :: rat) < of_nat (2 ^ 53)" by (simp only: of_nat_less_iff)
  then have "\<bar>of_int (int n) :: rat\<bar> < 2 ^ 53" by simp
  from fl_whole [OF this] show ?thesis by (simp add: parsed_def)
qed

lemma js_sub_counts:
  assumes "j \<le> m" and "m < 2 ^ 53"
  shows "js_sub (Num (of_nat m)) (Num (of_nat j)) = Num (of_nat (m - j))"
proof -
  from assms have "m - j < 2 ^ 53" by simp
  then have "(of_nat (m - j) :: rat) < of_nat (2 ^ 53)" by (simp only: of_nat_less_iff)
  then have "\<bar>of_int (int (m - j)) :: rat\<bar> < 2 ^ 53" by simp
  from fl_whole [OF this] have f: "fl (of_nat (m - j)) = Num (of_nat (m - j))" by simp
  from assms(1) have d: "(of_nat m - of_nat j :: rat) = of_nat (m - j)"
    by (rule of_nat_diff [symmetric])
  have "js_sub (Num (of_nat m)) (Num (of_nat j)) = fl (of_nat m - of_nat j)"
    by (simp only: js_sub.simps)
  then show ?thesis by (simp only: d f)
qed

lemma spotsLeft_counts:
  assumes "shows_counts row c" and "joined_count c \<le> max_entrants c" and "max_entrants c < 2 ^ 53"
  shows "spotsLeft row = Num (of_nat (max_entrants c - joined_count c))"
proof -
  from assms(2,3) have j: "joined_count c < 2 ^ 53" by simp
  from assms(1) have "max_users row = Num (of_nat (max_entrants c))"
    and "joined_users row = Num (of_nat (joined_count c))"
    by (simp_all add: shows_counts_def parsed_count [OF j] parsed_count [OF assms(3)])
  then show ?thesis
    by (simp only: spotsLeft_def js_sub_counts [OF assms(2,3)])
qed

subsection \<open>Rounding keeps the order\<close>

lemma round_half_even_close: "\<bar>of_int (round_half_even y) - y\<bar> \<le> 1 / 2"
proof -
  have "of_int \<lfloor>y\<rfloor> \<le> y" and "y < of_int \<lfloor>y\<rfloor> + 1" by linarith+
  then show ?thesis
    by (auto simp: round_half_even_def Let_def)
qed

lemma round_half_even_mono:
  assumes "x \<le> y"
  shows "round_half_even x \<le> round_half_even y"
proof (rule ccontr)
  assume "\<not> round_half_even x \<le> round_half_even y"
  then have "round_half_even y + 1 \<le> round_half_even x" by simp
  then have "(of_int (round_half_even y + 1) :: rat) \<le> of_int (round_half_even x)"
    by (simp only: of_int_le_iff)
  then have "(of_int (round_half_even y) :: rat) + 1 \<le> of_int (round_half_even x)" by simp
  with round_half_even_close [of x] round_half_even_close [of y] have "y \<le> x" by linarith
  with assms have "x = y" by simp
  with \<open>\<not> round_half_even x \<le> round_half_even y\<close> show False by simp
qed

lemma floor_log2_mono:
  assumes "0 < a" and "a \<le> b"
  shows "floor_log2 a \<le> floor_log2 b"
proof -
  from assms have b: "0 < b" by linarith
  from floor_log2_lower [OF assms(1)] floor_log2_upper [OF b] assms(2)
  have "(2::rat) powi floor_log2 a < 2 powi (floor_log2 b + 1)" by linarith
  then have "floor_log2 a < floor_log2 b + 1" by (simp only: two_powi_less_iff)
  then show ?thesis by simp
qed

lemma scaled_mono:
  assumes "m \<le> n"
  shows "(of_int m :: rat) * 2 powi e \<le> of_int n * 2 powi e"
proof -
  from assms have "(of_int m :: rat) \<le> of_int n" by (simp only: of_int_le_iff)
  moreover have "(0::rat) \<le> 2 powi e" by simp
  ultimately show ?thesis by (rule mult_right_mono)
qed

lemma round64_nonneg:
  assumes "0 \<le> q"
  shows "0 \<le> round64 q"
proof -
  have "(0::rat) < 2 powi ulp_exp q" by simp
  with assms have "0 \<le> q / 2 powi ulp_exp q" by simp
  from round_half_even_mono [OF this] have "0 \<le> round_half_even (q / 2 powi ulp_exp q)"
    by simp
  then show ?thesis by (simp add: round64_def)
qed

lemma round64_mono:
  assumes "0 \<le> a" and "a \<le> b"
  shows "round64 a \<le> round64 b"
proof (cases "a = 0")
  case True
  from assms have "0 \<le> b" by simp
  from round64_nonneg [OF this] True show ?thesis by (simp add: round64_def)
next
  case False
  with assms have a: "0 < a" and b: "0 < b" by simp_all
  let ?ea = "ulp_exp a" and ?eb = "ulp_exp b"
  have pa: "(0::rat) < 2 powi ?ea" and pb: "(0::rat) < 2 powi ?eb" by simp_all
  from floor_log2_mono [OF a assms(2)] a b have le: "?ea \<le> ?eb"
    by (simp add: ulp_exp_def)
  show ?thesis
  proof (cases "?ea = ?eb")
    case True
    from assms(2) pb have "a / 2 powi ?eb \<le> b / 2 powi ?eb"
      by (simp add: divide_right_mono)
    from scaled_mono [OF round_half_even_mono [OF this], of ?eb] True
    show ?thesis by (simp only: round64_def)
  next
    case False
    with le have lt: "?ea < ?eb" by simp
    define k where "k = floor_log2 b"
    have "- 1074 \<le> ?ea" by (simp add: ulp_exp_def)
    with lt have "- 1074 < ?eb" by simp
    with b have eb: "?eb = k - 52" unfolding ulp_exp_def k_def by (simp add: max_def split: if_splits)
    from a have "floor_log2 a - 52 \<le> ?ea" by (simp add: ulp_exp_def)
    with lt eb have "floor_log2 a + 1 \<le> k" by simp
    then have "(2::rat) powi (floor_log2 a + 1) \<le> 2 powi k"
      by (rule power_int_increasing) simp
    with floor_log2_upper [OF a] have ak: "a \<le> 2 powi k" by linarith
    from floor_log2_lower [OF b] have kb: "2 powi k \<le> b" by (simp only: k_def)
    from lt eb have d: "0 \<le> k - ?ea" by simp
    have "(2::rat) powi k / 2 powi ?ea = 2 powi (k - ?ea)"
      by (simp add: power_int_diff)
    also from d have "\<dots> = of_int (2 ^ nat (k - ?ea))"
      by (simp add: power_int_nonneg_exp)
    finally have g: "(2::rat) powi k / 2 powi ?ea = of_int (2 ^ nat (k - ?ea))" .
    from ak pa have "a / 2 powi ?ea \<le> 2 powi k / 2 powi ?ea"
      by (simp add: divide_right_mono)
    then have "a / 2 powi ?ea \<le> of_int (2 ^ nat (k - ?ea))" by (simp only: g)
    from round_half_even_mono [OF this]
    have "round_half_even (a / 2 powi ?ea) \<le> 2 ^ nat (k - ?ea)"
      by (simp only: round_half_even_of_int)
    from scaled_mono [OF this, of ?ea]
    have "round64 a \<le> of_int (2 ^ nat (k - ?ea)) * 2 powi ?ea"
      by (simp only: round64_def)
    also have "\<dots> = 2 powi k / 2 powi ?ea * 2 powi ?ea" by (simp only: g)
    also have "\<dots> = 2 powi k" by simp
    finally have lo: "round64 a \<le> 2 powi k" .
    have "(2::rat) powi k / 2 powi ?eb = 2 powi (k - ?eb)"
      by (simp add: power_int_diff)
    also have "\<dots> = of_int (2 ^ 52)" by (simp add: eb)
    finally have h: "(2::rat) powi k / 2 powi ?eb = of_int (2 ^ 52)" .
    from kb pb have "2 powi k / 2 powi ?eb \<le> b / 2 powi ?eb"
      by (simp add: divide_right_mono)
    then have "of_int (2 ^ 52) \<le> b / 2 powi ?eb" by (simp only: h)
    from round_half_even_mono [OF this]
    have "2 ^ 52 \<le> round_half_even (b / 2 powi ?eb)"
      by (simp only: round_half_even_of_int)
    from scaled_mono [OF this, of ?eb]
    have "(of_int (2 ^ 52) :: rat) * 2 powi ?eb \<le> round64 b"
      by (simp only: round64_def)
    moreover have "(of_int (2 ^ 52) :: rat) * 2 powi ?eb = 2 powi k / 2 powi ?eb * 2 powi ?eb"
      by (simp only: h)
    moreover have "2 powi k / 2 powi ?eb * 2 powi ?eb = (2::rat) powi k" by simp
    ultimately have "2 powi k \<le> round64 b" by (simp only:)
    with lo show ?thesis by linarith
  qed
qed

lemma fl_nonneg_cases:
  assumes "0 \<le> q"
  shows "fl q = PosInf \<and> 2 ^ 1024 \<le> round64 q
         \<or> fl q = Num (round64 q) \<and> 0 \<le> round64 q \<and> round64 q < 2 ^ 1024"
proof -
  from round64_nonneg [OF assms] have "\<not> round64 q \<le> - (2 ^ 1024)" by simp
  with round64_nonneg [OF assms] show ?thesis
    by (simp add: fl_def Let_def)
qed

lemma spotsLeft_not_negative:
  assumes "shows_counts row c" and "joined_count c \<le> max_entrants c"
  shows "\<not> js_lt (spotsLeft row) (Num 0)"
proof -
  let ?m = "of_nat (max_entrants c) :: rat" and ?j = "of_nat (joined_count c) :: rat"
  from assms(1) have r: "max_users row = fl ?m" "joined_users row = fl ?j"
    by (simp_all add: shows_counts_def parsed_def)
  have m: "0 \<le> ?m" and j: "0 \<le> ?j" by simp_all
  from assms(2) have "?j \<le> ?m" by simp
  from round64_mono [OF j this] have le: "round64 ?j \<le> round64 ?m" .
  from fl_nonneg_cases [OF m] show ?thesis
  proof
    assume "fl ?m = PosInf \<and> 2 ^ 1024 \<le> round64 ?m"
    with fl_nonneg_cases [OF j] r show ?thesis
      by (auto simp: spotsLeft_def)
  next
    assume a: "fl ?m = Num (round64 ?m) \<and> 0 \<le> round64 ?m \<and> round64 ?m < 2 ^ 1024"
    with le have "\<not> 2 ^ 1024 \<le> round64 ?j" by linarith
    with fl_nonneg_cases [OF j] have b: "fl ?j = Num (round64 ?j)" by blast
    from le have "0 \<le> round64 ?m - round64 ?j" by simp
    from fl_nonneg_cases [OF this] a b r show ?thesis
      by (auto simp: spotsLeft_def)
  qed
qed

text \<open>The page shows the difference as it is given the counts; it does not clamp it.\<close>

lemma spotsLeft_not_clamped: "spotsLeft (sample_row 2 3) = Num (- 1)"
proof -
  have "\<bar>of_int (- 1) :: rat\<bar> < 2 ^ 53" by simp
  from fl_whole [OF this] have "fl (- 1) = Num (- 1)" by simp
  moreover have "parsed (of_nat 2) = Num 2" "parsed (of_nat 3) = Num 3"
    using parsed_count [of 2] parsed_count [of 3] by simp_all
  ultimately show ?thesis by (simp add: spotsLeft_def sample_row_def)
qed

subsection \<open>Joined count and capacity\<close>

lemma joinContest_refused:
  assumes "joinContest user contestId t st = (Inl r, st')"
  shows "st' = st"
proof (cases "contests st contestId")
  case None
  with assms show ?thesis by (simp add: joinContest_def)
next
  case (Some c)
  show ?thesis
  proof (cases "join_refusal user contestId st c")
    case None
    with Some assms show ?thesis by (simp add: joinContest_def Let_def)
  next
    case (Some r')
    with \<open>contests st contestId = Some c\<close> assms show ?thesis by (simp add: joinContest_def)
  qed
qed

lemma joinContest_joined:
  assumes "joinContest user contestId t st = (Inr e, st')"
  shows "\<exists>c. contests st contestId = Some c \<and> joined_count c < max_entrants c
           \<and> contests st' = (contests st)(contestId \<mapsto> c\<lparr>joined_count := Suc (joined_count c)\<rparr>)"
proof (cases "contests st contestId")
  case None
  with assms show ?thesis by (simp add: joinContest_def)
next
  case (Some c)
  show ?thesis
  proof (cases "join_refusal user contestId st c")
    case None
    then have "joined_count c < max_entrants c"
      by (simp add: join_refusal_def split: if_splits)
    moreover from None Some assms
    have "contests st' = (contests st)(contestId \<mapsto> c\<lparr>joined_count := Suc (joined_count c)\<rparr>)"
      by (auto simp: joinContest_def Let_def)
    ultimately show ?thesis using Some by simp
  next
    case (Some r')
    with \<open>contests st contestId = Some c\<close> assms show ?thesis by (simp add: joinContest_def)
  qed
qed

lemma join_step_contest:
  "(contests st k = None \<longrightarrow> contests (snd (joinContest user contestId t st)) k = None)
   \<and> (\<forall>c. contests st k = Some c \<longrightarrow>
         (\<exists>c'. contests (snd (joinContest user contestId t st)) k = Some c'
              \<and> max_entrants c' = max_entrants c
              \<and> (joined_count c' = joined_count c
                  \<or> joined_count c' = Suc (joined_count c) \<and> joined_count c < max_entrants c)))"
proof (cases "joinContest user contestId t st")
  case (Pair r st')
  show ?thesis
  proof (cases r)
    case (Inl x)
    with Pair joinContest_refused [of user contestId t st x st'] have "st' = st" by simp
    with Pair show ?thesis by simp
  next
    case (Inr e)
    with Pair joinContest_joined [of user contestId t st e st']
    obtain d where d: "contests st contestId = Some d" "joined_count d < max_entrants d"
      "contests st' = (contests st)(contestId \<mapsto> d\<lparr>joined_count := Suc (joined_count d)\<rparr>)"
      by auto
    with Pair show ?thesis by (cases "k = contestId") auto
  qed
qed

lemma join_step_within_capacity:
  assumes "within_capacity st"
  shows "within_capacity (snd (joinContest user contestId t st))"
  unfolding within_capacity_def
proof (intro allI impI)
  fix k c'
  assume c': "contests (snd (joinContest user contestId t st)) k = Some c'"
  show "joined_count c' \<le> max_entrants c'"
  proof (cases "contests st k")
    case None
    with join_step_contest [of st k user contestId t] c' show ?thesis by simp
  next
    case (Some c)
    with join_step_contest [of st k user contestId t] c'
    have "max_entrants c' = max_entrants c"
      and "joined_count c' = joined_count c
           \<or> joined_count c' = Suc (joined_count c) \<and> joined_count c < max_entrants c"
      by auto
    moreover from assms Some have "joined_count c \<le> max_entrants c"
      by (simp add: within_capacity_def)
    ultimately show ?thesis by auto
  qed
qed

lemma run_joins_Cons:
  "run_joins st ((user, contestId, t) # js) = run_joins (snd (joinContest user contestId t st)) js"
  by (simp add: run_joins_def)

lemma run_joins_within_capacity:
  "within_capacity st \<Longrightarrow> within_capacity (run_joins st js)"
proof (induction js arbitrary: st)
  case Nil
  then show ?case by (simp add: run_joins_def)
next
  case (Cons j js)
  obtain user contestId t where j: "j = (user, contestId, t)" by (cases j) auto
  from Cons.IH [OF join_step_within_capacity [OF Cons.prems, of user contestId t]]
  show ?case by (simp only: j run_joins_Cons)
qed

lemma run_joins_monotone:
  assumes "contests st k = Some c"
  shows "\<exists>c'. contests (run_joins st js) k = Some c' \<and> max_entrants c' = max_entrants c
           \<and> joined_count c \<le> joined_count c'"
  using assms
proof (induction js arbitrary: st c)
  case Nil
  then show ?case by (simp add: run_joins_def)
next
  case (Cons j js)
  obtain user contestId t where j: "j = (user, contestId, t)" by (cases j) auto
  from join_step_contest [of st k user contestId t] Cons.prems
  obtain d where d: "contests (snd (joinContest user contestId t st)) k = Some d"
    "max_entrants d = max_entrants c" "joined_count c \<le> joined_count d"
    by auto
  from Cons.IH [OF d(1)] obtain c' where
    "contests (run_joins (snd (joinContest user contestId t st)) js) k = Some c'"
    "max_entrants c' = max_entrants d" "joined_count d \<le> joined_count c'"
    by auto
  with d show ?case by (auto simp only: j run_joins_Cons)
qed

text \<open>
  C8. Starting from contests that are within capacity, whatever joins are asked for, in
  any order, every contest stays within capacity, keeps its maximum, and its joined count
  never goes down. A refused join leaves the whole state as it was; a successful join
  finds the contest below its maximum and raises its count by exactly one. The page
  computes the spots left as the difference of the two counts it is shown, in JavaScript
  numbers, and does not clamp it: for a contest after any joins it is never below zero,
  and when the maximum is below \<open>2 ^ 53\<close> (the whole numbers a JavaScript number holds
  exactly) it is exactly the maximum minus the joined count.
\<close>

theorem joined_count_monotone_and_bounded:
  assumes "within_capacity st"
  shows "within_capacity (run_joins st js)
       \<and> (\<forall>k c. contests st k = Some c \<longrightarrow>
             (\<exists>c'. contests (run_joins st js) k = Some c' \<and> max_entrants c' = max_entrants c
                  \<and> joined_count c \<le> joined_count c' \<and> joined_count c' \<le> max_entrants c'
                  \<and> (\<forall>row. shows_counts row c' \<longrightarrow>
                         \<not> js_lt (spotsLeft row) (Num 0)
                         \<and> (max_entrants c' < 2 ^ 53 \<longrightarrow>
                              spotsLeft row = Num (of_nat (max_entrants c' - joined_count c'))))))
       \<and> (\<forall>r st'. joinContest user contestId t st = (Inl r, st') \<longrightarrow> st' = st)
       \<and> (\<forall>e st'. joinContest user contestId t st = (Inr e, st') \<longrightarrow>
             (\<exists>c. contests st contestId = Some c \<and> joined_count c < max_entrants c
                \<and> contests st' =
                    (contests st)(contestId \<mapsto> c\<lparr>joined_count := Suc (joined_count c)\<rparr>)))"
proof (intro conjI allI impI)
  show "within_capacity (run_joins st js)"
    by (rule run_joins_within_capacity [OF assms])
next
  fix k c
  assume "contests st k = Some c"
  from run_joins_monotone [OF this, of js] obtain c' where
    c': "contests (run_joins st js) k = Some c'" "max_entrants c' = max_entrants c"
    "joined_count c \<le> joined_count c'"
    by auto
  from run_joins_within_capacity [OF assms, of js] c'(1)
  have le: "joined_count c' \<le> max_entrants c'"
    by (simp add: within_capacity_def)
  have "\<not> js_lt (spotsLeft row) (Num 0)
        \<and> (max_entrants c' < 2 ^ 53 \<longrightarrow>
             spotsLeft row = Num (of_nat (max_entrants c' - joined_count c')))"
    if "shows_counts row c'" for row
    using spotsLeft_not_negative [OF that le] spotsLeft_counts [OF that le] by blast
  with c' le
  show "\<exists>c'. contests (run_joins st js) k = Some c' \<and> max_entrants c' = max_entrants c
                  \<and> joined_count c \<le> joined_count c' \<and> joined_count c' \<le> max_entrants c'
                  \<and> (\<forall>row. shows_counts row c' \<longrightarrow>
                         \<not> js_lt (spotsLeft row) (Num 0)
                         \<and> (max_entrants c' < 2 ^ 53 \<longrightarrow>
                              spotsLeft row = Num (of_nat (max_entrants c' - joined_count c'))))"
    by blast
next
  fix r st'
  assume "joinContest user contestId t st = (Inl r, st')"
  from joinContest_refused [OF this] show "st' = st" .
next
  fix e st'
  assume "joinContest user contestId t st = (Inr e, st')"
  from joinContest_joined [OF this]
  show "\<exists>c. contests st contestId = Some c \<and> joined_count c < max_entrants c
                \<and> contests st' =
                    (contests st)(contestId \<mapsto> c\<lparr>joined_count := Suc (joined_count c)\<rparr>)"
    .
qed

lemma sample_backend_within_capacity: "within_capacity (sample_backend 7)"
  by (simp add: within_capacity_def sample_backend_def sample_contest_def)

lemma sample_first_join:
  "joinContest ''alice'' ''c1'' sample_team (sample_backend 7)
     = (Inr \<lparr>entry_user = ''alice'', entry_team = 0, entry_contest = ''c1''\<rparr>,
        \<lparr>contests = [''c1'' \<mapsto> sample_contest\<lparr>joined_count := 1\<rparr>],
         teams = [sample_team],
         entries = [\<lparr>entry_user = ''alice'', entry_team = 0, entry_contest = ''c1''\<rparr>],
         balance = (\<lambda>u. if u = ''alice'' then 2 else 0),
         transactions = [\<lparr>txn_user = ''alice'', txn_type = Debit, amount = 5,
                          reference = ''c1''\<rparr>]\<rparr>)"
  by (auto simp: joinContest_def join_refusal_def sample_backend_def sample_contest_def
      sample_team_def Let_def)

lemma sample_later_joins:
  "joinContest ''alice'' ''c1'' sample_team (snd (joinContest ''alice'' ''c1'' sample_team (sample_backend 7)))
     = (Inl InsufficientBalance, snd (joinContest ''alice'' ''c1'' sample_team (sample_backend 7)))"
  "joinContest ''bob'' ''c1'' sample_team (snd (joinContest ''alice'' ''c1'' sample_team (sample_backend 7)))
     = (Inl InsufficientBalance, snd (joinContest ''alice'' ''c1'' sample_team (sample_backend 7)))"
  unfolding sample_first_join snd_conv
  by (simp_all add: joinContest_def join_refusal_def sample_contest_def)

lemma sample_joins_contest:
  "contests (run_joins (sample_backend 7) sample_joins) ''c1''
     = Some (sample_contest\<lparr>joined_count := 1\<rparr>)"
proof -
  have "run_joins (sample_backend 7) sample_joins
        = snd (joinContest ''alice'' ''c1'' sample_team (sample_backend 7))"
    by (simp add: run_joins_def sample_joins_def sample_later_joins)
  then show ?thesis by (simp add: sample_first_join)
qed

theorem joined_count_monotone_and_bounded_witness:
  "within_capacity (sample_backend 7)
   \<and> within_capacity (run_joins (sample_backend 7) sample_joins)
   \<and> contests (sample_backend 7) ''c1'' = Some sample_contest
   \<and> contests (run_joins (sample_backend 7) sample_joins) ''c1''
       = Some (sample_contest\<lparr>joined_count := 1\<rparr>)
   \<and> joined_count sample_contest = 0 \<and> max_entrants sample_contest = 2
   \<and> shows_counts (sample_row 2 1) (sample_contest\<lparr>joined_count := 1\<rparr>)
   \<and> spotsLeft (sample_row 2 1) = Num 1
   \<and> \<not> js_lt (spotsLeft (sample_row 2 1)) (Num 0)
   \<and> snd (joinContest ''bob'' ''c1'' sample_team (sample_backend 7)) = sample_backend 7
   \<and> contests (snd (joinContest ''alice'' ''c1'' sample_team (sample_backend 7)))
       = [''c1'' \<mapsto> sample_contest\<lparr>joined_count := 1\<rparr>]"
proof -
  have c: "contests (sample_backend 7) ''c1'' = Some sample_contest"
    by (simp add: sample_backend_def)
  have n: "joined_count sample_contest = 0" "max_entrants sample_contest = 2"
    by (simp_all add: sample_contest_def)
  have s: "shows_counts (sample_row 2 1) (sample_contest\<lparr>joined_count := 1\<rparr>)"
    by (simp add: shows_counts_def sample_row_def sample_contest_def)
  have b: "joinContest ''bob'' ''c1'' sample_team (sample_backend 7)
           = (Inl InsufficientBalance, sample_backend 7)"
    by (simp add: joinContest_def join_refusal_def sample_backend_def sample_contest_def)
  note main = joined_count_monotone_and_bounded
    [OF sample_backend_within_capacity, of sample_joins _ "''c1''" sample_team]
  from main [of "''alice''"]
  have w: "within_capacity (run_joins (sample_backend 7) sample_joins)"
    and m: "\<forall>k c. contests (sample_backend 7) k = Some c \<longrightarrow>
             (\<exists>c'. contests (run_joins (sample_backend 7) sample_joins) k = Some c'
                  \<and> max_entrants c' = max_entrants c
                  \<and> joined_count c \<le> joined_count c' \<and> joined_count c' \<le> max_entrants c'
                  \<and> (\<forall>row. shows_counts row c' \<longrightarrow>
                         \<not> js_lt (spotsLeft row) (Num 0)
                         \<and> (max_entrants c' < 2 ^ 53 \<longrightarrow>
                              spotsLeft row = Num (of_nat (max_entrants c' - joined_count c')))))"
    and a: "\<forall>e st'. joinContest ''alice'' ''c1'' sample_team (sample_backend 7) = (Inr e, st') \<longrightarrow>
             (\<exists>c. contests (sample_backend 7) ''c1'' = Some c \<and> joined_count c < max_entrants c
                \<and> contests st' =
                    (contests (sample_backend 7))(''c1'' \<mapsto> c\<lparr>joined_count := Suc (joined_count c)\<rparr>))"
    by blast+
  from main [of "''bob''"]
  have r: "\<forall>r st'. joinContest ''bob'' ''c1'' sample_team (sample_backend 7) = (Inl r, st')
             \<longrightarrow> st' = sample_backend 7"
    by blast
  from m c obtain c' where c':
    "contests (run_joins (sample_backend 7) sample_joins) ''c1'' = Some c'"
    "\<forall>row. shows_counts row c' \<longrightarrow>
        \<not> js_lt (spotsLeft row) (Num 0)
        \<and> (max_entrants c' < 2 ^ 53 \<longrightarrow>
             spotsLeft row = Num (of_nat (max_entrants c' - joined_count c')))"
    by blast
  from c'(1) sample_joins_contest have e: "c' = sample_contest\<lparr>joined_count := 1\<rparr>" by simp
  have "max_entrants (sample_contest\<lparr>joined_count := 1\<rparr>) < 2 ^ 53"
    by (simp add: sample_contest_def)
  with c'(2) s
  have "spotsLeft (sample_row 2 1)
          = Num (of_nat (max_entrants (sample_contest\<lparr>joined_count := 1\<rparr>)
                         - joined_count (sample_contest\<lparr>joined_count := 1\<rparr>)))
        \<and> \<not> js_lt (spotsLeft (sample_row 2 1)) (Num 0)"
    unfolding e by blast
  then have p: "spotsLeft (sample_row 2 1) = Num 1 \<and> \<not> js_lt (spotsLeft (sample_row 2 1)) (Num 0)"
    by (simp add: sample_contest_def)
  from r b have rb: "snd (joinContest ''bob'' ''c1'' sample_team (sample_backend 7)) = sample_backend 7"
    by simp
  from a sample_first_join c
  have ra: "contests (snd (joinContest ''alice'' ''c1'' sample_team (sample_backend 7)))
       = [''c1'' \<mapsto> sample_contest\<lparr>joined_count := 1\<rparr>]"
    by (simp add: sample_backend_def sample_contest_def)
  from sample_backend_within_capacity w c sample_joins_contest n s p rb ra
  show ?thesis by simp
qed

subsection \<open>Scores\<close>

text \<open>
  C7. The player of the example, with 45 runs, 3 fours, 1 six, 2 wickets and 1
  catch, and nothing else, scores exactly 108 base points.
\<close>

theorem example_player_scores_108:
  "computePlayerPoints
     \<lparr>runs = 45, fours = 3, sixes = 1, wickets = 2, maidens = 0, catches = 1, stumpings = 0,
      run_outs = 0\<rparr> = 108"
  by (simp add: computePlayerPoints_def)

lemma score_players_sum:
  "score_players t pts rs = (\<Sum>r\<leftarrow>rs. of_int (pts r) * multiplier t r)"
  by (induction rs) simp_all

lemma score_players_split:
  assumes "distinct rs"
  shows "score_players t pts rs =
           of_int (\<Sum>r\<leftarrow>rs. pts r)
           + (if captain_ref t \<in> set rs then of_int (pts (captain_ref t)) else 0)
           + (if vice_captain_ref t \<in> set rs \<and> vice_captain_ref t \<noteq> captain_ref t
              then of_int (pts (vice_captain_ref t)) / 2 else 0)"
  using assms
proof (induction rs)
  case Nil
  then show ?case by simp
next
  case (Cons r rs)
  then have IH: "score_players t pts rs =
           of_int (\<Sum>r\<leftarrow>rs. pts r)
           + (if captain_ref t \<in> set rs then of_int (pts (captain_ref t)) else 0)
           + (if vice_captain_ref t \<in> set rs \<and> vice_captain_ref t \<noteq> captain_ref t
              then of_int (pts (vice_captain_ref t)) / 2 else 0)"
    and r: "r \<notin> set rs"
    by simp_all
  show ?case
  proof (cases "r = captain_ref t")
    case True
    with r IH show ?thesis by (auto simp: multiplier_def)
  next
    case False
    note nc = this
    show ?thesis
    proof (cases "r = vice_captain_ref t")
      case True
      with nc r IH show ?thesis by (auto simp: multiplier_def field_simps)
    next
      case False
      with nc r IH show ?thesis by (auto simp: multiplier_def)
    qed
  qed
qed

text \<open>
  C6. The score of a team is the sum, over its players, of base points times a
  multiplier: 2 for the captain, 3/2 for the vice-captain, 1 for anyone else. For a team
  of 11 distinct players with captain and vice-captain two different players among them,
  that is the plain sum of all base points, plus the captain's points once more, plus
  half the vice-captain's.
\<close>

theorem team_score_is_weighted_sum:
  "computeTeamScore t pts =
     (\<Sum>r\<leftarrow>members t. of_int (pts r) *
        (if r = captain_ref t then 2 else if r = vice_captain_ref t then 3 / 2 else 1))
   \<and> (well_formed_team t \<longrightarrow>
        computeTeamScore t pts =
          of_int (\<Sum>r\<leftarrow>members t. pts r) + of_int (pts (captain_ref t))
          + of_int (pts (vice_captain_ref t)) / 2)"
proof
  have "(\<lambda>r. of_int (pts r) * multiplier t r) =
        (\<lambda>r. of_int (pts r) *
           (if r = captain_ref t then 2 else if r = vice_captain_ref t then 3 / 2 else 1))"
    by (simp add: multiplier_def fun_eq_iff)
  then show "computeTeamScore t pts =
     (\<Sum>r\<leftarrow>members t. of_int (pts r) *
        (if r = captain_ref t then 2 else if r = vice_captain_ref t then 3 / 2 else 1))"
    by (simp add: computeTeamScore_def score_players_sum)
next
  show "well_formed_team t \<longrightarrow>
        computeTeamScore t pts =
          of_int (\<Sum>r\<leftarrow>members t. pts r) + of_int (pts (captain_ref t))
          + of_int (pts (vice_captain_ref t)) / 2"
  proof
    assume "well_formed_team t"
    then have "distinct (members t)" "captain_ref t \<in> set (members t)"
      "vice_captain_ref t \<in> set (members t)" "vice_captain_ref t \<noteq> captain_ref t"
      by (auto simp: well_formed_team_def)
    with score_players_split [of "members t" t pts] show "computeTeamScore t pts =
          of_int (\<Sum>r\<leftarrow>members t. pts r) + of_int (pts (captain_ref t))
          + of_int (pts (vice_captain_ref t)) / 2"
      by (simp add: computeTeamScore_def)
  qed
qed

theorem team_score_is_weighted_sum_witness:
  "well_formed_team sample_team
   \<and> (\<Sum>r\<leftarrow>members sample_team. sample_points r) = 229
   \<and> computeTeamScore sample_team sample_points = 229 + 108 + 31 / 2"
proof -
  have w: "well_formed_team sample_team"
    by (simp add: well_formed_team_def sample_team_def squad_refs_def)
  have s: "(\<Sum>r\<leftarrow>members sample_team. sample_points r) = 229"
    by (simp add: sample_team_def squad_refs_def sample_points_def)
  have p: "sample_points (captain_ref sample_team) = 108"
    "sample_points (vice_captain_ref sample_team) = 31"
    by (simp_all add: sample_team_def sample_points_def)
  from team_score_is_weighted_sum [of sample_team sample_points] w s p
  show ?thesis by simp
qed

end
